theory Spec2Isabelle
  imports Main
begin

section \<open>Preprocessing tokens\<close>

text \<open>
  The file \<^verbatim>\<open>lsl_lib_version.h\<close> consists of preprocessing directives only:
  \<^verbatim>\<open>
  #ifndef LSL_LIBRARY_INFO_STR
  #define MSTR_EXPAND(tok) #tok
  #define MSTR(tok) MSTR_EXPAND(tok)

  #define LSL_LIBTYPE_DART link:SHARED
  // Concatenate strings without space, using proper formatting of /
  #define LSL_LIBRARY_INFO_STR MSTR(LSL_VERSION_INFO) "/" MSTR(LSL_LIBTYPE_DART)
  #endif
  \<close>
  Its meaning is what translation phases 4 (directives and macro replacement) and 6
  (joining adjacent string literals) make of it. A preprocessing token is an identifier, a
  pp-number, a character constant, a string literal or a punctuator; for the two kinds of
  literal the constructor holds the characters between the quotes, as written.
\<close>

datatype pptoken =
    Ident string
  | PPNumber string
  | CharConst string
  | StrLit string
  | Punct string

text \<open>
  A token in a token sequence also records whether white space stands before it (the
  operator \<^verbatim>\<open>#\<close> turns any white space between two tokens into one space) and its hide
  set: the macros whose replacement produced it, which are not replaced in it again.
\<close>

record tok =
  ws :: bool
  hs :: "string set"
  tk :: pptoken

definition adj :: "pptoken \<Rightarrow> tok" where
  "adj k = \<lparr>ws = False, hs = {}, tk = k\<rparr>"

definition spc :: "pptoken \<Rightarrow> tok" where
  "spc k = \<lparr>ws = True, hs = {}, tk = k\<rparr>"

definition is_punct :: "string \<Rightarrow> tok \<Rightarrow> bool" where
  "is_punct p t = (tk t = Punct p)"

text \<open>The two operators of a replacement list, each in its two spellings.\<close>

definition is_hash :: "tok \<Rightarrow> bool" where
  "is_hash t = (is_punct ''#'' t \<or> is_punct ''%:'' t)"

definition is_paste :: "tok \<Rightarrow> bool" where
  "is_paste t = (is_punct ''##'' t \<or> is_punct ''%:%:'' t)"

datatype macro =
    ObjLike "tok list"
  | FunLike "string list" "tok list"

text \<open>
  The macro table at a point of the source file: every macro that is defined there, those
  of the command line and the predefined ones included, each with the replacement list it
  has at that point. A predefined macro whose value changes while it is replaced (the
  compilers' \<^verbatim>\<open>__COUNTER__\<close>) and a macro with a variable number of arguments have no
  place in it.
\<close>

type_synonym env = "string \<rightharpoonup> macro"

datatype error =
    HashWithoutParam string
  | ArgCount string
  | Unterminated string
  | Unsupported string
  | OutOfFuel

definition then_do :: "error + 'a \<Rightarrow> ('a \<Rightarrow> error + 'b) \<Rightarrow> error + 'b" where
  "then_do r f = (case r of Inl e \<Rightarrow> Inl e | Inr x \<Rightarrow> f x)"

definition keep :: "tok \<Rightarrow> error + tok list \<Rightarrow> error + tok list" where
  "keep t r = (case r of Inl e \<Rightarrow> Inl e | Inr ts \<Rightarrow> Inr (t # ts))"

section \<open>The operator \<^verbatim>\<open>#\<close>\<close>

definition dquote :: char where
  "dquote = CHR 0x22"

definition squote :: char where
  "squote = CHR 0x27"

definition backslash :: char where
  "backslash = CHR 0x5C"

definition spelling :: "pptoken \<Rightarrow> string" where
  "spelling k =
     (case k of
        Ident s \<Rightarrow> s
      | PPNumber s \<Rightarrow> s
      | CharConst s \<Rightarrow> squote # s @ [squote]
      | StrLit s \<Rightarrow> dquote # s @ [dquote]
      | Punct s \<Rightarrow> s)"

text \<open>
  Inside the new literal a backslash is put before each double quote and each backslash
  of a character constant or string literal, the delimiting quotes included; the other
  tokens keep their spelling.
\<close>

fun escape :: "string \<Rightarrow> string" where
  "escape [] = []"
| "escape (c # cs) =
     (if c = dquote \<or> c = backslash then backslash # c # escape cs else c # escape cs)"

definition quoted :: "pptoken \<Rightarrow> string" where
  "quoted k =
     (case k of
        CharConst s \<Rightarrow> escape (spelling k)
      | StrLit s \<Rightarrow> escape (spelling k)
      | _ \<Rightarrow> spelling k)"

fun stringify_from :: "tok list \<Rightarrow> string" where
  "stringify_from [] = []"
| "stringify_from (t # ts) =
     (if ws t then CHR 0x20 # quoted (tk t) @ stringify_from ts
      else quoted (tk t) @ stringify_from ts)"

text \<open>
  White space before the first token of the argument and after its last one is deleted;
  an empty argument gives the empty string.
\<close>

definition stringify :: "tok list \<Rightarrow> string" where
  "stringify ts = (case ts of [] \<Rightarrow> [] | t # ts' \<Rightarrow> quoted (tk t) @ stringify_from ts')"

section \<open>Macro replacement\<close>

text \<open>
  The arguments of an invocation are the tokens after the opening parenthesis up to the
  matching closing one, split at the commas that are in no inner parentheses. The result
  is the arguments, the closing parenthesis and the tokens after it; there is none when
  the tokens end first.
\<close>

fun collect :: "nat \<Rightarrow> tok list \<Rightarrow> tok list list \<Rightarrow> tok list \<Rightarrow>
    (tok list list \<times> tok \<times> tok list) option" where
  "collect d cur args [] = None"
| "collect d cur args (t # ts) =
     (if is_punct ''('' t then collect (Suc d) (cur @ [t]) args ts
      else if is_punct '')'' t then
        (case d of
           0 \<Rightarrow> Some (args @ [cur], t, ts)
         | Suc d' \<Rightarrow> collect d' (cur @ [t]) args ts)
      else if is_punct '','' t \<and> d = 0 then collect 0 [] (args @ [cur]) ts
      else collect d (cur @ [t]) args ts)"

text \<open>\<^verbatim>\<open>M()\<close> is no argument for a macro without parameters, one empty argument otherwise.\<close>

definition arity_ok :: "string list \<Rightarrow> tok list list \<Rightarrow> bool" where
  "arity_ok ps args = (if ps = [] then args = [[]] else length args = length ps)"

fun index_of :: "string \<Rightarrow> string list \<Rightarrow> nat option" where
  "index_of x [] = None"
| "index_of x (p # ps) = (if x = p then Some 0 else map_option Suc (index_of x ps))"

definition param_index :: "string list \<Rightarrow> tok \<Rightarrow> nat option" where
  "param_index ps t = (case tk t of Ident x \<Rightarrow> index_of x ps | _ \<Rightarrow> None)"

definition hsadd :: "string set \<Rightarrow> tok list \<Rightarrow> tok list" where
  "hsadd h ts = map (\<lambda>t. t\<lparr>hs := hs t \<union> h\<rparr>) ts"

text \<open>
  The tokens \<open>rs\<close> take the place of a token that had white space before it or not
  (\<open>w\<close>): the first of them stands where that token stood. When \<open>rs\<close> is empty the
  white space is still there, before the token that follows.
\<close>

definition splice :: "bool \<Rightarrow> tok list \<Rightarrow> tok list \<Rightarrow> tok list" where
  "splice w rs rest =
     (case rs of
        [] \<Rightarrow> (case rest of [] \<Rightarrow> [] | t # ts \<Rightarrow> t\<lparr>ws := (w \<or> ws t)\<rparr> # ts)
      | r # rs' \<Rightarrow> r\<lparr>ws := w\<rparr> # rs' @ rest)"

text \<open>
  Substitution in the replacement list of a function-like macro: \<^verbatim>\<open>#\<close> followed by a
  parameter becomes the string literal of the argument as it was written (\<open>args\<close>), any
  other parameter becomes the argument after its own macro replacement (\<open>eargs\<close>), every
  other token is copied.
\<close>

fun subst :: "string \<Rightarrow> string list \<Rightarrow> tok list list \<Rightarrow> (error + tok list) list \<Rightarrow>
    tok list \<Rightarrow> error + tok list" where
  "subst x ps args eargs [] = Inr []"
| "subst x ps args eargs (t # ts) =
     (if is_hash t then
        (case ts of
           [] \<Rightarrow> Inl (HashWithoutParam x)
         | p # ts' \<Rightarrow>
             (case param_index ps p of
                None \<Rightarrow> Inl (HashWithoutParam x)
              | Some i \<Rightarrow>
                  (if length args \<le> i then Inl (ArgCount x)
                   else
                     keep (t\<lparr>tk := StrLit (stringify (args ! i))\<rparr>)
                       (subst x ps args eargs ts'))))
      else
        (case param_index ps t of
           None \<Rightarrow> keep t (subst x ps args eargs ts)
         | Some i \<Rightarrow>
             (if length eargs \<le> i then Inl (ArgCount x)
              else
                (case eargs ! i of
                   Inl e \<Rightarrow> Inl e
                 | Inr a \<Rightarrow>
                     (case subst x ps args eargs ts of
                        Inl e \<Rightarrow> Inl e
                      | Inr r \<Rightarrow> Inr (splice (ws t) a r))))))"

text \<open>
  The macro a token names, if it is to be replaced: an identifier that is defined and is
  not in the token's own hide set.
\<close>

definition macro_of :: "env \<Rightarrow> tok \<Rightarrow> (string \<times> macro) option" where
  "macro_of env t =
     (case tk t of
        Ident x \<Rightarrow> (if x \<in> hs t then None else map_option (Pair x) (env x))
      | _ \<Rightarrow> None)"

text \<open>
  Macro replacement of a token sequence, with rescanning. The name of an object-like
  macro is replaced by its replacement list; the name of a function-like macro is
  replaced only when an opening parenthesis follows, by its replacement list after
  substitution of the arguments. The result is scanned again together with the tokens
  after it, the macro's name added to the hide sets. Every replacement uses up one unit
  of the fuel \<open>n\<close>. The header does not use the operator \<^verbatim>\<open>##\<close>; a macro whose
  replacement list holds it is not replaced here (\<open>Unsupported\<close>).
\<close>

fun expand :: "nat \<Rightarrow> env \<Rightarrow> tok list \<Rightarrow> error + tok list" where
  "expand n env [] = Inr []"
| "expand n env (t # ts) =
     (case macro_of env t of
        None \<Rightarrow> keep t (expand n env ts)
      | Some (x, ObjLike body) \<Rightarrow>
          (if list_ex is_paste body then Inl (Unsupported x)
           else
             (case n of
                0 \<Rightarrow> Inl OutOfFuel
              | Suc m \<Rightarrow> expand m env (splice (ws t) (hsadd (insert x (hs t)) body) ts)))
      | Some (x, FunLike ps body) \<Rightarrow>
          (case ts of
             [] \<Rightarrow> Inr [t]
           | l # ts' \<Rightarrow>
               (if \<not> is_punct ''('' l then keep t (expand n env ts)
                else if list_ex is_paste body then Inl (Unsupported x)
                else
                  (case collect 0 [] [] ts' of
                     None \<Rightarrow> Inl (Unterminated x)
                   | Some (args, r, rest) \<Rightarrow>
                       (if \<not> arity_ok ps args then Inl (ArgCount x)
                        else
                          (case n of
                             0 \<Rightarrow> Inl OutOfFuel
                           | Suc m \<Rightarrow>
                               (case subst x ps args (map (expand m env) args) body of
                                  Inl e \<Rightarrow> Inl e
                                | Inr rs \<Rightarrow>
                                    expand m env
                                      (splice (ws t) (hsadd (insert x (hs t \<inter> hs r)) rs)
                                         rest))))))))"

section \<open>Joining adjacent string literals\<close>

fun concat_literals :: "tok list \<Rightarrow> tok list" where
  "concat_literals [] = []"
| "concat_literals [t] = [t]"
| "concat_literals (a # b # ts) =
     (case tk a of
        StrLit x \<Rightarrow>
          (case tk b of
             StrLit y \<Rightarrow> concat_literals (a\<lparr>tk := StrLit (x @ y)\<rparr> # ts)
           | _ \<Rightarrow> a # concat_literals (b # ts))
      | _ \<Rightarrow> a # concat_literals (b # ts))"

section \<open>The directives\<close>

text \<open>
  In the replacement list of a function-like macro each \<^verbatim>\<open>#\<close> is followed by a
  parameter.
\<close>

fun hash_ok :: "string list \<Rightarrow> tok list \<Rightarrow> bool" where
  "hash_ok ps [] = True"
| "hash_ok ps [t] = (\<not> is_hash t)"
| "hash_ok ps (t # p # ts) =
     (if is_hash t then param_index ps p \<noteq> None \<and> hash_ok ps ts
      else hash_ok ps (p # ts))"

definition well_formed :: "macro \<Rightarrow> bool" where
  "well_formed m = (case m of ObjLike body \<Rightarrow> True | FunLike ps body \<Rightarrow> hash_ok ps body)"

text \<open>
  \<^verbatim>\<open>#define\<close>: the name is defined from here on by the new replacement list. When it
  was defined before by another replacement list, the compilers (gcc, clang, MSVC) warn
  and go on with the new definition, as here.
\<close>

definition define_macro :: "string \<Rightarrow> macro \<Rightarrow> env \<Rightarrow> error + env" where
  "define_macro x m env =
     (if \<not> well_formed m then Inl (HashWithoutParam x) else Inr (env(x \<mapsto> m)))"

section \<open>The header\<close>

definition MSTR_EXPAND :: macro where
  "MSTR_EXPAND = FunLike [''tok''] [adj (Punct ''#''), adj (Ident ''tok'')]"

definition MSTR :: macro where
  "MSTR = FunLike [''tok'']
     [adj (Ident ''MSTR_EXPAND''), adj (Punct ''(''), adj (Ident ''tok''), adj (Punct '')'')]"

definition LSL_LIBTYPE_DART :: macro where
  "LSL_LIBTYPE_DART = ObjLike [adj (Ident ''link''), adj (Punct '':''), adj (Ident ''SHARED'')]"

definition LSL_LIBRARY_INFO_STR :: macro where
  "LSL_LIBRARY_INFO_STR = ObjLike
     [adj (Ident ''MSTR''), adj (Punct ''(''), adj (Ident ''LSL_VERSION_INFO''),
      adj (Punct '')''),
      spc (StrLit ''/''),
      spc (Ident ''MSTR''), adj (Punct ''(''), adj (Ident ''LSL_LIBTYPE_DART''),
      adj (Punct '')'')]"

text \<open>
  The group between \<^verbatim>\<open>#ifndef LSL_LIBRARY_INFO_STR\<close> and \<^verbatim>\<open>#endif\<close> is skipped when
  the name is defined; otherwise its four definitions are made in their order, whatever
  the four names were defined as before.
\<close>

definition lsl_lib_version_h :: "env \<Rightarrow> error + env" where
  "lsl_lib_version_h env =
     (if ''LSL_LIBRARY_INFO_STR'' \<in> dom env then Inr env
      else
        then_do (define_macro ''MSTR_EXPAND'' MSTR_EXPAND env) (\<lambda>e1.
        then_do (define_macro ''MSTR'' MSTR e1) (\<lambda>e2.
        then_do (define_macro ''LSL_LIBTYPE_DART'' LSL_LIBTYPE_DART e2) (\<lambda>e3.
        define_macro ''LSL_LIBRARY_INFO_STR'' LSL_LIBRARY_INFO_STR e3))))"

text \<open>
  A use of the name \<^verbatim>\<open>LSL_LIBRARY_INFO_STR\<close> where the macros \<open>env\<close> are defined: macro
  replacement, then the joining of the adjacent string literals. The result is the
  sequence of tokens that the compiler proper reads.
\<close>

definition library_info :: "nat \<Rightarrow> env \<Rightarrow> error + pptoken list" where
  "library_info n env =
     (case expand n env [adj (Ident ''LSL_LIBRARY_INFO_STR'')] of
        Inl e \<Rightarrow> Inl e
      | Inr ts \<Rightarrow> Inr (map tk (concat_literals ts)))"

text \<open>
  A source file that includes the header and then uses the name, compiled with the
  macros \<open>predefined\<close> (those of the command line).
\<close>

definition translation_unit :: "env \<Rightarrow> nat \<Rightarrow> error + pptoken list" where
  "translation_unit predefined n = then_do (lsl_lib_version_h predefined) (library_info n)"

section \<open>Tokens of the formatter\<close>

text \<open>
  A token sequence that can stand as one argument of a macro: its parentheses match, and
  each of its commas is inside parentheses. \<open>d\<close> counts the parentheses that are open.
\<close>

fun balanced :: "nat \<Rightarrow> tok list \<Rightarrow> bool" where
  "balanced d [] = (d = 0)"
| "balanced d (t # ts) =
     (if is_punct ''('' t then balanced (Suc d) ts
      else if is_punct '')'' t then (case d of 0 \<Rightarrow> False | Suc d' \<Rightarrow> balanced d' ts)
      else if is_punct '','' t \<and> d = 0 then False
      else balanced d ts)"

definition one_argument :: "tok list \<Rightarrow> bool" where
  "one_argument ts = balanced 0 ts"

text \<open>
  A bare token stands for itself: it does not name a macro of \<open>env\<close>, and it is not the
  operator \<^verbatim>\<open>##\<close>. The version token and the link-type token are sequences of bare
  tokens that can stand as one argument: \<^verbatim>\<open>1.2.3\<close> (one pp-number) or \<^verbatim>\<open>link:SHARED\<close> (an
  identifier, a punctuator and an identifier).
\<close>

definition bare :: "env \<Rightarrow> tok \<Rightarrow> bool" where
  "bare env t =
     (\<not> is_paste t \<and> (case tk t of Ident x \<Rightarrow> env x = None | _ \<Rightarrow> True))"

text \<open>
  The three macros of the header that make the formatter are defined in \<open>env\<close> as the
  header defines them.
\<close>

definition header_macros :: "env \<Rightarrow> bool" where
  "header_macros env =
     (env ''MSTR_EXPAND'' = Some MSTR_EXPAND \<and> env ''MSTR'' = Some MSTR \<and>
      env ''LSL_LIBRARY_INFO_STR'' = Some LSL_LIBRARY_INFO_STR)"

text \<open>
  The argument \<open>x\<close> of \<^verbatim>\<open>MSTR\<close> as it stands in the replacement list of
  \<^verbatim>\<open>LSL_LIBRARY_INFO_STR\<close> once that name has been replaced.
\<close>

definition argument :: "string \<Rightarrow> tok" where
  "argument x = \<lparr>ws = False, hs = {''LSL_LIBRARY_INFO_STR''}, tk = Ident x\<rparr>"

text \<open>
  The macros of the formatter with \<open>V\<close> for the version token and \<open>T\<close> for the
  link-type token.
\<close>

definition formatter_env :: "tok list \<Rightarrow> tok list \<Rightarrow> env" where
  "formatter_env V T =
     [''MSTR_EXPAND'' \<mapsto> MSTR_EXPAND, ''MSTR'' \<mapsto> MSTR,
      ''LSL_LIBRARY_INFO_STR'' \<mapsto> LSL_LIBRARY_INFO_STR,
      ''LSL_VERSION_INFO'' \<mapsto> ObjLike V, ''LSL_LIBTYPE_DART'' \<mapsto> ObjLike T]"

text \<open>
  The macros of the formatter alone: neither the version token nor the link-type token is
  defined.
\<close>

definition header_only :: env where
  "header_only =
     [''MSTR_EXPAND'' \<mapsto> MSTR_EXPAND, ''MSTR'' \<mapsto> MSTR,
      ''LSL_LIBRARY_INFO_STR'' \<mapsto> LSL_LIBRARY_INFO_STR]"

text \<open>The macros \<open>env\<close> with the four definitions of the header.\<close>

definition header_table :: "env \<Rightarrow> env" where
  "header_table env =
     env(''MSTR_EXPAND'' \<mapsto> MSTR_EXPAND, ''MSTR'' \<mapsto> MSTR,
       ''LSL_LIBTYPE_DART'' \<mapsto> LSL_LIBTYPE_DART,
       ''LSL_LIBRARY_INFO_STR'' \<mapsto> LSL_LIBRARY_INFO_STR)"

text \<open>The tokens that \<^verbatim>\<open>MSTR(t)\<close> is replaced by.\<close>

definition MSTR_of :: "nat \<Rightarrow> env \<Rightarrow> tok \<Rightarrow> error + pptoken list" where
  "MSTR_of n env t =
     map_sum id (map tk)
       (expand n env [adj (Ident ''MSTR''), adj (Punct ''(''), t, adj (Punct '')'')])"

section \<open>What a replacement depends on\<close>

text \<open>The names in a token sequence.\<close>

fun names :: "tok list \<Rightarrow> string set" where
  "names [] = {}"
| "names (t # ts) = (case tk t of Ident x \<Rightarrow> insert x (names ts) | _ \<Rightarrow> names ts)"

text \<open>
  The names that the replacement of a macro puts into the text: those of its replacement
  list, the parameters apart, which stand for the arguments.
\<close>

definition reads :: "macro \<Rightarrow> string set" where
  "reads m = (case m of ObjLike body \<Rightarrow> names body | FunLike ps body \<Rightarrow> names body - set ps)"

definition replacement_list :: "macro \<Rightarrow> tok list" where
  "replacement_list m = (case m of ObjLike body \<Rightarrow> body | FunLike ps body \<Rightarrow> body)"

text \<open>
  A set of names \<open>S\<close> holds all that its macros can reach: each macro of \<open>env\<close> that it
  names puts names of \<open>S\<close> only into the text. The operator \<^verbatim>\<open>##\<close> makes new names, so
  none of these macros uses it.
\<close>

definition closed_under :: "env \<Rightarrow> string set \<Rightarrow> bool" where
  "closed_under env S =
     (\<forall>x \<in> S. case env x of
        None \<Rightarrow> True
      | Some m \<Rightarrow> \<not> list_ex is_paste (replacement_list m) \<and> reads m \<subseteq> S)"

text \<open>Two macro tables define the names of \<open>S\<close> the same way.\<close>

definition agree_on :: "string set \<Rightarrow> env \<Rightarrow> env \<Rightarrow> bool" where
  "agree_on S env1 env2 = (\<forall>x \<in> S. env1 x = env2 x)"

section \<open>Basic facts\<close>

lemma keep_simps [simp]: "keep t (Inr ts) = Inr (t # ts)" "keep t (Inl e) = Inl e"
  by (simp_all add: keep_def)

lemma then_do_simps [simp]: "then_do (Inr x) f = f x" "then_do (Inl e) f = Inl e"
  by (simp_all add: then_do_def)

lemma splice_simps [simp]:
  "splice w [] [] = []"
  "splice w [] (t # ts) = t\<lparr>ws := (w \<or> ws t)\<rparr> # ts"
  "splice w (r # rs) rest = r\<lparr>ws := w\<rparr> # rs @ rest"
  by (simp_all add: splice_def)

lemma hsadd_simps [simp]:
  "hsadd h [] = []"
  "hsadd h (t # ts) = t\<lparr>hs := hs t \<union> h\<rparr> # hsadd h ts"
  "hsadd h (xs @ ys) = hsadd h xs @ hsadd h ys"
  by (simp_all add: hsadd_def)

lemma stringify_from_hsadd [simp]: "stringify_from (hsadd h ts) = stringify_from ts"
  by (induction ts) simp_all

lemma stringify_hsadd [simp]: "stringify (hsadd h ts) = stringify ts"
  by (cases ts) (simp_all add: stringify_def)

lemma stringify_first_ws [simp]: "stringify (t\<lparr>ws := w\<rparr> # ts) = stringify (t # ts)"
  by (simp add: stringify_def)

lemma stringify_first_hs [simp]: "stringify (t\<lparr>hs := h\<rparr> # ts) = stringify (t # ts)"
  by (simp add: stringify_def)

lemma is_punct_update [simp]:
  "is_punct p (t\<lparr>hs := h\<rparr>) = is_punct p t" "is_punct p (t\<lparr>ws := w\<rparr>) = is_punct p t"
  by (simp_all add: is_punct_def)

lemma balanced_hsadd [simp]: "balanced d (hsadd h ts) = balanced d ts"
  by (induction ts arbitrary: d) (simp_all split: nat.splits)

lemma bare_update [simp]:
  "bare env (t\<lparr>hs := h\<rparr>) = bare env t" "bare env (t\<lparr>ws := w\<rparr>) = bare env t"
  by (simp_all add: bare_def is_paste_def is_punct_def)

lemma bare_hsadd [simp]: "list_all (bare env) (hsadd h ts) = list_all (bare env) ts"
  by (induction ts) simp_all

lemma bare_not_paste: "list_all (bare env) ts \<Longrightarrow> \<not> list_ex is_paste ts"
  by (induction ts) (simp_all add: bare_def)

lemma collect_argument:
  "balanced d A \<Longrightarrow> is_punct '')'' r \<Longrightarrow>
   collect d cur args (A @ r # rest) = Some (args @ [cur @ A], r, rest)"
proof (induction A arbitrary: d cur)
  case Nil
  then show ?case by (simp add: is_punct_def)
next
  case (Cons a A)
  then show ?case by (auto split: if_splits nat.splits)
qed

lemma macro_of_bare: "bare env t \<Longrightarrow> macro_of env t = None"
  by (auto simp: bare_def macro_of_def split: pptoken.splits)

lemma expand_keep: "macro_of env t = None \<Longrightarrow> expand n env (t # ts) = keep t (expand n env ts)"
  by simp

lemma expand_object:
  "macro_of env t = Some (x, ObjLike body) \<Longrightarrow> \<not> list_ex is_paste body \<Longrightarrow>
   expand (Suc m) env (t # ts) = expand m env (splice (ws t) (hsadd (insert x (hs t)) body) ts)"
  by simp

lemma expand_function:
  "macro_of env t = Some (x, FunLike ps body) \<Longrightarrow> is_punct ''('' l \<Longrightarrow>
   \<not> list_ex is_paste body \<Longrightarrow>
   collect 0 [] [] ts = Some (args, r, rest) \<Longrightarrow> arity_ok ps args \<Longrightarrow>
   expand (Suc m) env (t # l # ts) =
     (case subst x ps args (map (expand m env) args) body of
        Inl e \<Rightarrow> Inl e
      | Inr rs \<Rightarrow> expand m env (splice (ws t) (hsadd (insert x (hs t \<inter> hs r)) rs) rest))"
  by simp

declare expand.simps(2) [simp del]

lemma expand_bare: "list_all (bare env) ts \<Longrightarrow> expand n env ts = Inr ts"
  by (induction ts) (simp_all add: expand_keep macro_of_bare)

lemma expand_undefined:
  "tk t = Ident x \<Longrightarrow> env x = None \<Longrightarrow> expand n env [t] = Inr [t]"
  by (simp add: expand_keep macro_of_def)

lemma expand_defined:
  assumes "tk t = Ident x" and "x \<notin> hs t" and "env x = Some (ObjLike V)"
    and "list_all (bare env) V"
  shows "expand (Suc n) env [t] = Inr (splice (ws t) (hsadd (insert x (hs t)) V) [])"
proof -
  have "macro_of env t = Some (x, ObjLike V)"
    using assms by (simp add: macro_of_def)
  then have "expand (Suc n) env [t] = expand n env (splice (ws t) (hsadd (insert x (hs t)) V) [])"
    using bare_not_paste [OF assms(4)] by (rule expand_object)
  moreover have "list_all (bare env) (splice (ws t) (hsadd (insert x (hs t)) V) [])"
    using assms(4) by (cases V) simp_all
  ultimately show ?thesis
    by (simp add: expand_bare)
qed

lemma mstr_expand_step:
  assumes me: "env ''MSTR_EXPAND'' = Some MSTR_EXPAND"
    and t: "tk t = Ident ''MSTR_EXPAND''" "''MSTR_EXPAND'' \<notin> hs t"
    and l: "is_punct ''('' l" and r: "is_punct '')'' r"
    and A: "one_argument A"
  shows "expand (Suc k) env (t # l # A @ r # rest) =
         keep \<lparr>ws = ws t, hs = insert ''MSTR_EXPAND'' (hs t \<inter> hs r), tk = StrLit (stringify A)\<rparr>
           (expand k env rest)"
proof -
  have m: "macro_of env t = Some (''MSTR_EXPAND'', FunLike [''tok''] [adj (Punct ''#''), adj (Ident ''tok'')])"
    using me t by (simp add: macro_of_def MSTR_EXPAND_def)
  have c: "collect 0 [] [] (A @ r # rest) = Some ([A], r, rest)"
    using collect_argument [of 0 A r "[]" "[]" rest] A r by (simp add: one_argument_def)
  show ?thesis
    by (simp add: expand_function [OF m l _ c] arity_ok_def is_punct_def is_hash_def
        is_paste_def adj_def param_index_def expand_keep macro_of_def)
qed

lemma mstr_step:
  assumes ms: "env ''MSTR'' = Some MSTR" and me: "env ''MSTR_EXPAND'' = Some MSTR_EXPAND"
    and m: "tk m = Ident ''MSTR''" "''MSTR'' \<notin> hs m" "''MSTR_EXPAND'' \<notin> hs m"
    and l: "is_punct ''('' l" and r: "is_punct '')'' r"
    and x: "one_argument [x]"
    and A: "expand (Suc k) env [x] = Inr A" "one_argument A"
  shows "\<exists>s. tk s = StrLit (stringify A) \<and> ws s = ws m \<and>
           expand (Suc (Suc k)) env (m # l # x # r # rest) = keep s (expand k env rest)"
proof -
  define H where "H = insert ''MSTR'' (hs m \<inter> hs r)"
  define B where "B = hsadd H (case A of [] \<Rightarrow> [] | a # A' \<Rightarrow> a\<lparr>ws := False\<rparr> # A')"
  let ?t = "\<lparr>ws = ws m, hs = H, tk = Ident ''MSTR_EXPAND''\<rparr>"
  let ?l = "\<lparr>ws = False, hs = H, tk = Punct ''(''\<rparr>"
  let ?r = "\<lparr>ws = False, hs = H, tk = Punct '')''\<rparr>"
  have mo: "macro_of env m = Some (''MSTR'', FunLike [''tok'']
      [adj (Ident ''MSTR_EXPAND''), adj (Punct ''(''), adj (Ident ''tok''), adj (Punct '')'')])"
    using ms m by (simp add: macro_of_def MSTR_def)
  have c: "collect 0 [] [] (x # r # rest) = Some ([[x]], r, rest)"
    using collect_argument [of 0 "[x]" r "[]" "[]" rest] x r by (simp add: one_argument_def)
  have step: "expand (Suc (Suc k)) env (m # l # x # r # rest) =
      expand (Suc k) env (?t # ?l # B @ ?r # rest)"
    using A(1) unfolding B_def H_def
    by (cases A) (simp_all add: expand_function [OF mo l _ c] arity_ok_def is_punct_def
        is_hash_def is_paste_def adj_def param_index_def)
  have sep: "one_argument B"
    using A(2) unfolding B_def by (cases A) (auto simp: one_argument_def split: if_splits)
  have str: "stringify B = stringify A"
    unfolding B_def by (cases A) (simp_all add: stringify_def)
  have t: "tk ?t = Ident ''MSTR_EXPAND''" "''MSTR_EXPAND'' \<notin> hs ?t"
    using m by (simp_all add: H_def)
  have "expand (Suc k) env (?t # ?l # B @ ?r # rest) =
      keep \<lparr>ws = ws m, hs = insert ''MSTR_EXPAND'' H, tk = StrLit (stringify A)\<rparr>
        (expand k env rest)"
    using mstr_expand_step [where env = env and t = ?t and l = ?l and r = ?r and k = k
        and rest = rest and A = B] me t sep
    by (simp add: is_punct_def str)
  with step have "expand (Suc (Suc k)) env (m # l # x # r # rest) =
      keep \<lparr>ws = ws m, hs = insert ''MSTR_EXPAND'' H, tk = StrLit (stringify A)\<rparr>
        (expand k env rest)"
    by simp
  then show ?thesis
    by (intro exI [of _ "\<lparr>ws = ws m, hs = insert ''MSTR_EXPAND'' H, tk = StrLit (stringify A)\<rparr>"])
      simp
qed

lemma library_info_core:
  assumes h: "header_macros env"
    and V: "expand (Suc (Suc (Suc k))) env [argument ''LSL_VERSION_INFO''] = Inr A"
      "one_argument A"
    and T: "expand (Suc k) env [argument ''LSL_LIBTYPE_DART''] = Inr B"
      "one_argument B"
  shows "library_info (Suc (Suc (Suc (Suc (Suc k))))) env =
         Inr [StrLit (stringify A @ ''/'' @ stringify B)]"
proof -
  let ?I = "{''LSL_LIBRARY_INFO_STR''}"
  let ?m = "\<lparr>ws = False, hs = ?I, tk = Ident ''MSTR''\<rparr>"
  let ?m' = "\<lparr>ws = True, hs = ?I, tk = Ident ''MSTR''\<rparr>"
  let ?l = "\<lparr>ws = False, hs = ?I, tk = Punct ''(''\<rparr>"
  let ?r = "\<lparr>ws = False, hs = ?I, tk = Punct '')''\<rparr>"
  let ?s = "\<lparr>ws = True, hs = ?I, tk = StrLit ''/''\<rparr>"
  let ?v = "argument ''LSL_VERSION_INFO''"
  let ?t = "argument ''LSL_LIBTYPE_DART''"
  have ms: "env ''MSTR'' = Some MSTR" and me: "env ''MSTR_EXPAND'' = Some MSTR_EXPAND"
    using h by (simp_all add: header_macros_def)
  have mo: "macro_of env (adj (Ident ''LSL_LIBRARY_INFO_STR'')) =
      Some (''LSL_LIBRARY_INFO_STR'', LSL_LIBRARY_INFO_STR)"
    using h by (simp add: header_macros_def macro_of_def adj_def)
  have first: "expand (Suc (Suc (Suc (Suc (Suc k))))) env [adj (Ident ''LSL_LIBRARY_INFO_STR'')] =
      expand (Suc (Suc (Suc (Suc k)))) env [?m, ?l, ?v, ?r, ?s, ?m', ?l, ?t, ?r]"
    using mo unfolding LSL_LIBRARY_INFO_STR_def
    by (simp add: expand_object is_paste_def is_punct_def adj_def spc_def argument_def)
  have nsep: "one_argument [?v]" "one_argument [?t]"
    by (simp_all add: one_argument_def is_punct_def argument_def)
  obtain s1 where s1: "tk s1 = StrLit (stringify A)"
      "expand (Suc (Suc (Suc (Suc k)))) env [?m, ?l, ?v, ?r, ?s, ?m', ?l, ?t, ?r] =
       keep s1 (expand (Suc (Suc k)) env [?s, ?m', ?l, ?t, ?r])"
    using mstr_step [OF ms me _ _ _ _ _ nsep(1) V, of ?m ?l ?r "[?s, ?m', ?l, ?t, ?r]"]
    by (auto simp: is_punct_def)
  have sl: "expand (Suc (Suc k)) env [?s, ?m', ?l, ?t, ?r] =
      keep ?s (expand (Suc (Suc k)) env [?m', ?l, ?t, ?r])"
    by (simp add: expand_keep macro_of_def)
  obtain s2 where s2: "tk s2 = StrLit (stringify B)"
      "expand (Suc (Suc k)) env [?m', ?l, ?t, ?r] = keep s2 (expand k env [])"
    using mstr_step [OF ms me _ _ _ _ _ nsep(2) T, of ?m' ?l ?r "[]"]
    by (auto simp: is_punct_def)
  have "expand (Suc (Suc (Suc (Suc (Suc k))))) env [adj (Ident ''LSL_LIBRARY_INFO_STR'')] =
      Inr [s1, ?s, s2]"
    by (simp add: first s1(2) sl s2(2))
  then show ?thesis
    by (simp add: library_info_def s1(1) s2(1))
qed

lemma stringify_argument [simp]: "stringify [argument x] = x"
  by (simp add: stringify_def argument_def quoted_def spelling_def)

lemma argument_undefined:
  assumes "env x = None"
  shows "\<exists>A. expand (Suc k) env [argument x] = Inr A \<and> one_argument A \<and> stringify A = x"
proof -
  have "expand (Suc k) env [argument x] = Inr [argument x]"
    using assms by (simp add: expand_keep macro_of_def argument_def)
  moreover have "one_argument [argument x]"
    by (simp add: one_argument_def is_punct_def argument_def)
  ultimately show ?thesis by simp
qed

lemma argument_defined:
  assumes "env x = Some (ObjLike V)" and "list_all (bare env) V" and "one_argument V"
    and "x \<noteq> ''LSL_LIBRARY_INFO_STR''"
  shows "\<exists>A. expand (Suc k) env [argument x] = Inr A \<and> one_argument A \<and>
           stringify A = stringify V"
proof -
  define A where "A = splice False (hsadd {x, ''LSL_LIBRARY_INFO_STR''} V) []"
  have b: "list_all (bare env) A"
    using assms(2) unfolding A_def by (cases V) simp_all
  have "macro_of env (argument x) = Some (x, ObjLike V)"
    using assms by (simp add: macro_of_def argument_def)
  then have "expand (Suc k) env [argument x] = expand k env A"
    using bare_not_paste [OF assms(2)] by (simp add: expand_object A_def argument_def)
  then have "expand (Suc k) env [argument x] = Inr A"
    using b by (simp add: expand_bare)
  moreover have "stringify A = stringify V"
    unfolding A_def by (cases V) (simp_all add: stringify_def)
  moreover have "one_argument A"
    using assms(3) unfolding A_def by (cases V) (auto simp: one_argument_def split: if_splits)
  ultimately show ?thesis
    by blast
qed

lemma library_info_arguments:
  assumes h: "header_macros env" and n: "5 \<le> n"
    and V: "\<And>k. \<exists>A. expand (Suc k) env [argument ''LSL_VERSION_INFO''] = Inr A \<and>
              one_argument A \<and> stringify A = a"
    and T: "\<And>k. \<exists>B. expand (Suc k) env [argument ''LSL_LIBTYPE_DART''] = Inr B \<and>
              one_argument B \<and> stringify B = b"
  shows "library_info n env = Inr [StrLit (a @ ''/'' @ b)]"
proof -
  define k where "k = n - 5"
  have k: "n = Suc (Suc (Suc (Suc (Suc k))))"
    using n unfolding k_def by arith
  obtain A where A: "expand (Suc (Suc (Suc k))) env [argument ''LSL_VERSION_INFO''] = Inr A"
      "one_argument A" "stringify A = a"
    using V [of "Suc (Suc k)"] by blast
  obtain B where B: "expand (Suc k) env [argument ''LSL_LIBTYPE_DART''] = Inr B"
      "one_argument B" "stringify B = b"
    using T [of k] by blast
  show ?thesis
    using library_info_core [OF h A(1,2) B(1,2)] by (simp add: k A(3) B(3))
qed

lemma library_info_bare:
  assumes "header_macros env" and "5 \<le> n"
    and "env ''LSL_VERSION_INFO'' = Some (ObjLike V)"
    and "list_all (bare env) V" and "one_argument V"
    and "env ''LSL_LIBTYPE_DART'' = Some (ObjLike T)"
    and "list_all (bare env) T" and "one_argument T"
  shows "library_info n env = Inr [StrLit (stringify V @ ''/'' @ stringify T)]"
  using assms by (intro library_info_arguments argument_defined) simp_all

lemma then_do_Inr: "then_do r f = Inr y \<longleftrightarrow> (\<exists>x. r = Inr x \<and> f x = Inr y)"
  by (cases r) simp_all

lemma header_macros_well_formed:
  "well_formed MSTR_EXPAND" "well_formed MSTR" "well_formed LSL_LIBTYPE_DART"
  "well_formed LSL_LIBRARY_INFO_STR"
  by (simp_all add: well_formed_def MSTR_EXPAND_def MSTR_def LSL_LIBTYPE_DART_def
      LSL_LIBRARY_INFO_STR_def is_hash_def is_punct_def adj_def param_index_def)

lemma define_macro_well_formed: "well_formed m \<Longrightarrow> define_macro x m env = Inr (env(x \<mapsto> m))"
  by (simp add: define_macro_def)

lemma header_skipped:
  "''LSL_LIBRARY_INFO_STR'' \<in> dom env \<Longrightarrow> lsl_lib_version_h env = Inr env"
  by (simp add: lsl_lib_version_h_def)

lemma header_defines:
  "''LSL_LIBRARY_INFO_STR'' \<notin> dom env \<Longrightarrow> lsl_lib_version_h env = Inr (header_table env)"
  by (simp add: lsl_lib_version_h_def header_table_def define_macro_well_formed
      header_macros_well_formed)

lemma header_fresh:
  assumes "env ''LSL_LIBRARY_INFO_STR'' = None"
  shows "lsl_lib_version_h env =
         Inr (env(''MSTR_EXPAND'' \<mapsto> MSTR_EXPAND, ''MSTR'' \<mapsto> MSTR,
           ''LSL_LIBTYPE_DART'' \<mapsto> LSL_LIBTYPE_DART,
           ''LSL_LIBRARY_INFO_STR'' \<mapsto> LSL_LIBRARY_INFO_STR))"
  using assms header_defines [of env] by (simp add: dom_def header_table_def)

lemma header_result:
  assumes "lsl_lib_version_h env = Inr env'" and "''LSL_LIBRARY_INFO_STR'' \<notin> dom env"
  shows "env' = header_table env"
  using assms by (simp add: header_defines)

lemma header_defines_guard:
  assumes "lsl_lib_version_h env = Inr env'"
  shows "''LSL_LIBRARY_INFO_STR'' \<in> dom env'"
proof (cases "''LSL_LIBRARY_INFO_STR'' \<in> dom env")
  case True
  then show ?thesis using assms by (simp add: header_skipped)
next
  case False
  show ?thesis by (simp add: header_result [OF assms False] header_table_def)
qed

lemma header_table_macros:
  "header_macros (header_table env)"
  "header_table env ''LSL_LIBTYPE_DART'' = Some LSL_LIBTYPE_DART"
  by (simp_all add: header_table_def header_macros_def)

lemmas eval_defs = formatter_env_def header_macros_def bare_def one_argument_def is_paste_def
  is_punct_def adj_def spc_def stringify_def quoted_def spelling_def

lemma example_strings:
  "stringify [adj (PPNumber ''1.2.3'')] = ''1.2.3''"
  "stringify [adj (Ident ''SHARED'')] = ''SHARED''"
  "stringify [adj (PPNumber ''0.0.0''), adj (Punct ''-''), adj (Ident ''dev'')] = ''0.0.0-dev''"
  "stringify [adj (Ident ''STATIC'')] = ''STATIC''"
  "stringify [adj (Ident ''link''), adj (Punct '':''), adj (Ident ''SHARED'')] = ''link:SHARED''"
  by (simp_all add: stringify_def quoted_def spelling_def adj_def)

section \<open>Fuel and dependence\<close>

lemma keep_Inr: "keep t r = Inr ts \<longleftrightarrow> (\<exists>ts'. r = Inr ts' \<and> ts = t # ts')"
  by (cases r) auto

lemma subst_more:
  "subst x ps args eargs body = Inr rs \<Longrightarrow> length eargs' = length eargs \<Longrightarrow>
   (\<And>i a. \<not> length eargs \<le> i \<Longrightarrow> eargs ! i = Inr a \<Longrightarrow> eargs' ! i = Inr a) \<Longrightarrow>
   subst x ps args eargs' body = Inr rs"
proof (induction x ps args eargs body arbitrary: rs rule: subst.induct)
  case (1 x ps args eargs)
  then show ?case by simp
next
  case (2 x ps args eargs t ts)
  note len = "2.prems"(2) and more = "2.prems"(3)
  show ?case
  proof (cases "is_hash t")
    case True
    then show ?thesis
      using "2.prems"(1) "2.IH"(1) len more
      by (auto simp: keep_Inr split: list.splits option.splits if_splits)
  next
    case False
    show ?thesis
    proof (cases "param_index ps t")
      case None
      then show ?thesis
        using False "2.prems"(1) "2.IH"(2) len more by (auto simp: keep_Inr)
    next
      case (Some i)
      then obtain a r where a: "\<not> length eargs \<le> i" "eargs ! i = Inr a"
          "subst x ps args eargs ts = Inr r" "rs = splice (ws t) a r"
        using False "2.prems"(1) by (auto split: if_splits sum.splits)
      have "subst x ps args eargs' ts = Inr r"
        using "2.IH"(3) [OF False Some a(1,2) a(3) len more] by simp
      then show ?thesis
        using False Some a more [OF a(1,2)] len by simp
    qed
  qed
qed

lemma expand_more: "expand n env ts = Inr r \<Longrightarrow> expand (Suc n) env ts = Inr r"
proof (induction n env ts arbitrary: r rule: expand.induct)
  case (1 n env)
  then show ?case by simp
next
  case (2 n env t ts)
  show ?case
  proof (cases "macro_of env t")
    case None
    then show ?thesis
      using "2.prems" "2.IH"(1) by (auto simp: expand_keep keep_Inr)
  next
    case (Some xm)
    obtain x m where xm: "xm = (x, m)" by (cases xm)
    show ?thesis
    proof (cases m)
      case (ObjLike body)
      then obtain k where k: "\<not> list_ex is_paste body" "n = Suc k"
          "expand k env (splice (ws t) (hsadd (insert x (hs t)) body) ts) = Inr r"
        using "2.prems" Some xm by (auto simp: expand.simps(2) split: if_splits nat.splits)
      have "expand (Suc k) env (splice (ws t) (hsadd (insert x (hs t)) body) ts) = Inr r"
        using "2.IH"(2) [OF Some xm [symmetric] ObjLike k] .
      then show ?thesis
        using Some xm ObjLike k by (simp add: expand.simps(2))
    next
      case (FunLike ps body)
      show ?thesis
      proof (cases ts)
        case Nil
        then show ?thesis
          using "2.prems" Some xm FunLike by (auto simp: expand.simps(2))
      next
        case (Cons l ts')
        show ?thesis
        proof (cases "is_punct ''('' l")
          case False
          then show ?thesis
            using "2.prems" "2.IH"(3) [OF Some xm [symmetric] FunLike Cons False] Some xm FunLike Cons
            by (auto simp: expand.simps(2) keep_Inr)
        next
          case True
          then obtain args rp rest k rs where c: "\<not> list_ex is_paste body"
              "collect 0 [] [] ts' = Some (args, rp, rest)" "arity_ok ps args" "n = Suc k"
              "subst x ps args (map (expand k env) args) body = Inr rs"
              "expand k env (splice (ws t) (hsadd (insert x (hs t \<inter> hs rp)) rs) rest) = Inr r"
            using "2.prems" Some xm FunLike Cons
            by (auto simp: expand.simps(2) split: if_splits option.splits nat.splits sum.splits)
          have p: "\<not> \<not> is_punct ''('' l" "\<not> \<not> arity_ok ps args"
            using True c by simp_all
          have args: "expand (Suc k) env a = Inr b" if "a \<in> set args" "expand k env a = Inr b" for a b
            using "2.IH"(4) [OF Some xm [symmetric] FunLike Cons p(1) c(1) c(2) refl refl p(2) c(4) that] .
          have s: "subst x ps args (map (expand (Suc k) env) args) body = Inr rs"
            using c(5) by (rule subst_more) (auto intro: args)
          have "expand (Suc k) env (splice (ws t) (hsadd (insert x (hs t \<inter> hs rp)) rs) rest) = Inr r"
            using "2.IH"(5) [OF Some xm [symmetric] FunLike Cons p(1) c(1) c(2) refl refl p(2) c(4) c(5) c(6)] .
          then show ?thesis
            using Some xm FunLike Cons True c s by (simp add: expand.simps(2))
        qed
      qed
    qed
  qed
qed

lemma names_iff: "x \<in> names ts \<longleftrightarrow> (\<exists>t \<in> set ts. tk t = Ident x)"
  by (induction ts) (auto split: pptoken.splits)

declare names.simps [simp del]

lemma names_Nil [simp]: "names [] = {}"
  by (simp add: names.simps)

lemma names_Cons_literal [simp]:
  "names (t\<lparr>tk := StrLit s\<rparr> # ts) = names ts"
  by (simp add: names.simps)

lemma names_append [simp]: "names (a @ b) = names a \<union> names b"
  by (auto simp: names_iff)

lemma names_Cons: "names (t # ts) = names [t] \<union> names ts"
  by (auto simp: names_iff)

lemma names_hsadd [simp]: "names (hsadd h ts) = names ts"
  by (auto simp: names_iff hsadd_def)

lemma names_splice [simp]: "names (splice w rs rest) = names rs \<union> names rest"
  by (cases rs; cases rest) (auto simp: names_iff)

lemma collect_names:
  "collect d cur args ts = Some (as, r, rest) \<Longrightarrow>
   (\<forall>a \<in> set as. names a \<subseteq> names cur \<union> (\<Union>b \<in> set args. names b) \<union> names ts) \<and>
   names rest \<subseteq> names ts"
proof (induction d cur args ts rule: collect.induct)
  case (1 d cur args)
  then show ?case by simp
next
  case (2 d cur args t ts)
  have sub: "names ts \<subseteq> names (t # ts)" "names [t] \<subseteq> names (t # ts)"
    by (auto simp: names_iff)
  show ?case
    using "2.prems" "2.IH" sub
    by (auto split: if_splits nat.splits)
qed

lemma index_of_None: "index_of x ps = None \<longleftrightarrow> x \<notin> set ps"
  by (induction ps) auto

lemma subst_names:
  "subst x ps args eargs body = Inr rs \<Longrightarrow>
   (\<And>i a. \<not> length eargs \<le> i \<Longrightarrow> eargs ! i = Inr a \<Longrightarrow> names a \<subseteq> S) \<Longrightarrow>
   names body - set ps \<subseteq> S \<Longrightarrow> names rs \<subseteq> S"
proof (induction x ps args eargs body arbitrary: rs rule: subst.induct)
  case (1 x ps args eargs)
  then show ?case by simp
next
  case (2 x ps args eargs t ts)
  note args = "2.prems"(2) and body = "2.prems"(3)
  have tl: "names ts - set ps \<subseteq> S"
    using body by (auto simp: names_iff)
  show ?case
  proof (cases "is_hash t")
    case True
    then obtain p ts' i r where h: "ts = p # ts'" "param_index ps p = Some i"
        "\<not> length args \<le> i" "subst x ps args eargs ts' = Inr r"
        "rs = t\<lparr>tk := StrLit (stringify (args ! i))\<rparr> # r"
      using "2.prems"(1) by (auto simp: keep_Inr split: list.splits option.splits if_splits)
    have "names ts' - set ps \<subseteq> S"
      using tl h(1) by (auto simp: names_iff)
    then have "names r \<subseteq> S"
      using "2.IH"(1) [OF True h(1,2,3,4) args] by simp
    then show ?thesis
      using h(5) by simp
  next
    case False
    show ?thesis
    proof (cases "param_index ps t")
      case None
      then obtain r where r: "subst x ps args eargs ts = Inr r" "rs = t # r"
        using False "2.prems"(1) by (auto simp: keep_Inr)
      have "names r \<subseteq> S"
        using "2.IH"(2) [OF False None r(1) args tl] .
      moreover have "names [t] \<subseteq> S"
        using None body
        by (auto simp: names_iff param_index_def index_of_None split: pptoken.splits)
      ultimately show ?thesis
        using r(2) by (simp add: names_Cons [of t r])
    next
      case (Some i)
      then obtain a r where a: "\<not> length eargs \<le> i" "eargs ! i = Inr a"
          "subst x ps args eargs ts = Inr r" "rs = splice (ws t) a r"
        using False "2.prems"(1) by (auto split: if_splits sum.splits)
      have "names r \<subseteq> S"
        using "2.IH"(3) [OF False Some a(1,2,3) args tl] .
      then show ?thesis
        using a(4) args [OF a(1,2)] by simp
    qed
  qed
qed

lemma macro_of_Some: "macro_of env t = Some (x, m) \<Longrightarrow> tk t = Ident x \<and> env x = Some m"
  by (auto simp: macro_of_def split: pptoken.splits if_splits)

lemma macro_of_agree:
  assumes "names [t] \<subseteq> S" and "\<And>x. x \<in> S \<Longrightarrow> env2 x = env x"
  shows "macro_of env2 t = macro_of env t"
proof (cases "tk t")
  case (Ident x)
  then have "x \<in> names [t]"
    by (simp add: names_iff)
  then have "env2 x = env x"
    using assms by auto
  then show ?thesis
    using Ident by (simp add: macro_of_def)
qed (simp_all add: macro_of_def)

lemma names_keep:
  assumes "keep t e = Inr r" and "names [t] \<subseteq> S" and "\<forall>r'. e = Inr r' \<longrightarrow> names r' \<subseteq> S"
  shows "names r \<subseteq> S"
proof -
  obtain r' where "e = Inr r'" "r = t # r'"
    using assms(1) by (auto simp: keep_Inr)
  then show ?thesis
    using assms(2,3) names_Cons [of t r'] by simp
qed

lemma expand_agree:
  "names ts \<subseteq> S \<Longrightarrow> \<forall>x \<in> S. env2 x = env x \<Longrightarrow>
   \<forall>x \<in> S. \<forall>m. env x = Some m \<longrightarrow> reads m \<subseteq> S \<Longrightarrow>
   expand n env2 ts = expand n env ts \<and> (\<forall>r. expand n env ts = Inr r \<longrightarrow> names r \<subseteq> S)"
proof (induction n env ts rule: expand.induct)
  case (1 n env)
  then show ?case by simp
next
  case (2 n env t ts)
  note ag = "2.prems"(2) and cl = "2.prems"(3)
  have t: "names [t] \<subseteq> S" and ts: "names ts \<subseteq> S"
    using "2.prems"(1) names_Cons [of t ts] by auto
  have mo: "macro_of env2 t = macro_of env t"
    using t ag by (intro macro_of_agree) auto
  show ?case
  proof (cases "macro_of env t")
    case None
    then have e: "expand n env (t # ts) = keep t (expand n env ts)"
        "expand n env2 (t # ts) = keep t (expand n env2 ts)"
      using mo by (simp_all add: expand_keep)
    show ?thesis
      unfolding e using "2.IH"(1) [OF None ts ag cl] names_keep [OF _ t] by auto
  next
    case (Some xm)
    obtain x m where xm: "xm = (x, m)" by (cases xm)
    have x: "x \<in> S" "env x = Some m"
      using macro_of_Some [of env t x m] Some xm t by (auto simp: names_iff)
    have rd: "reads m \<subseteq> S"
      using cl x by blast
    show ?thesis
    proof (cases m)
      case (ObjLike body)
      have body: "names body \<subseteq> S"
        using rd ObjLike by (simp add: reads_def)
      show ?thesis
      proof (cases "list_ex is_paste body")
        case True
        then show ?thesis
          using Some xm ObjLike mo by (simp add: expand.simps(2))
      next
        case False
        show ?thesis
        proof (cases n)
          case 0
          then show ?thesis
            using Some xm ObjLike mo False by (simp add: expand.simps(2))
        next
          case (Suc k)
          have "names (splice (ws t) (hsadd (insert x (hs t)) body) ts) \<subseteq> S"
            using body ts by simp
          from "2.IH"(2) [OF Some xm [symmetric] ObjLike False Suc this ag cl]
          show ?thesis
            using Some xm ObjLike mo False Suc by (simp add: expand.simps(2))
        qed
      qed
    next
      case (FunLike ps body)
      have body: "names body - set ps \<subseteq> S"
        using rd FunLike by (simp add: reads_def)
      show ?thesis
      proof (cases ts)
        case Nil
        then show ?thesis
          using Some xm FunLike mo t by (auto simp: expand.simps(2))
      next
        case (Cons l ts')
        show ?thesis
        proof (cases "is_punct ''('' l")
          case False
          then have e: "expand n env (t # ts) = keep t (expand n env ts)"
              "expand n env2 (t # ts) = keep t (expand n env2 ts)"
            using Some xm FunLike Cons mo by (simp_all add: expand.simps(2))
          show ?thesis
            unfolding e
            using "2.IH"(3) [OF Some xm [symmetric] FunLike Cons False ts ag cl] names_keep [OF _ t]
            by auto
        next
          case paren: True
          show ?thesis
          proof (cases "list_ex is_paste body")
            case True
            then show ?thesis
              using Some xm FunLike Cons mo paren by (simp add: expand.simps(2))
          next
            case False
            show ?thesis
            proof (cases "collect 0 [] [] ts'")
              case None
              then show ?thesis
                using Some xm FunLike Cons mo paren False by (simp add: expand.simps(2))
            next
              case (Some c)
              obtain args rp rest where c: "c = (args, rp, rest)" by (cases c)
              have cn: "\<forall>a \<in> set args. names a \<subseteq> S" "names rest \<subseteq> S"
                using collect_names [of 0 "[]" "[]" ts' args rp rest] Some c ts Cons
                  names_Cons [of l ts']
                by (auto, blast+)
              show ?thesis
              proof (cases "arity_ok ps args")
                case False
                then show ?thesis
                  using \<open>macro_of env t = Some xm\<close> xm FunLike Cons mo paren
                    \<open>\<not> list_ex is_paste body\<close> Some c
                  by (simp add: expand.simps(2))
              next
                case True
                show ?thesis
                proof (cases n)
                  case 0
                  then show ?thesis
                    using \<open>macro_of env t = Some xm\<close> xm FunLike Cons mo paren
                      \<open>\<not> list_ex is_paste body\<close> Some c True
                    by (simp add: expand.simps(2))
                next
                  case (Suc k)
                  have p: "\<not> \<not> is_punct ''('' l" "\<not> \<not> arity_ok ps args"
                    using paren True by simp_all
                  note ih4 = "2.IH"(4) [OF \<open>macro_of env t = Some xm\<close> xm [symmetric] FunLike Cons
                      p(1) \<open>\<not> list_ex is_paste body\<close> Some c [symmetric] refl p(2) Suc]
                  have a: "expand k env2 a = expand k env a \<and>
                      (\<forall>r. expand k env a = Inr r \<longrightarrow> names r \<subseteq> S)" if "a \<in> set args" for a
                    using ih4 [OF that _ ag cl] cn(1) that by blast
                  have eargs: "map (expand k env2) args = map (expand k env) args"
                    using a by simp
                  show ?thesis
                  proof (cases "subst x ps args (map (expand k env) args) body")
                    case (Inl e)
                    then show ?thesis
                      using \<open>macro_of env t = Some xm\<close> xm FunLike Cons mo paren
                        \<open>\<not> list_ex is_paste body\<close> Some c True Suc
                      by (simp add: expand.simps(2) eargs)
                  next
                    case (Inr rs)
                    have "names rs \<subseteq> S"
                      using Inr
                    proof (rule subst_names)
                      fix i b
                      assume "\<not> length (map (expand k env) args) \<le> i"
                        "map (expand k env) args ! i = Inr b"
                      then show "names b \<subseteq> S"
                        using a [of "args ! i"] by simp
                    qed (rule body)
                    then have "names (splice (ws t) (hsadd (insert x (hs t \<inter> hs rp)) rs) rest) \<subseteq> S"
                      using cn(2) by simp
                    from "2.IH"(5) [OF \<open>macro_of env t = Some xm\<close> xm [symmetric] FunLike Cons
                      p(1) \<open>\<not> list_ex is_paste body\<close> Some c [symmetric] refl p(2) Suc Inr
                      this ag cl]
                    show ?thesis
                      using \<open>macro_of env t = Some xm\<close> xm FunLike Cons mo paren
                        \<open>\<not> list_ex is_paste body\<close> Some c True Suc Inr
                      by (simp add: expand.simps(2) eargs)
                  qed
                qed
              qed
            qed
          qed
        qed
      qed
    qed
  qed
qed

lemma expand_fuel: "n \<le> n' \<Longrightarrow> expand n env ts = Inr r \<Longrightarrow> expand n' env ts = Inr r"
  by (induction rule: dec_induct) (simp_all add: expand_more)

lemma library_info_fuel:
  "n \<le> n' \<Longrightarrow> library_info n env = Inr r \<Longrightarrow> library_info n' env = Inr r"
  by (auto simp: library_info_def split: sum.splits dest: expand_fuel)

lemma library_info_unique:
  assumes "library_info n1 env = Inr r1" and "library_info n2 env = Inr r2"
  shows "r1 = r2"
proof (cases "n1 \<le> n2")
  case True
  then show ?thesis
    using library_info_fuel [OF True assms(1)] assms(2) by simp
next
  case False
  then have "n2 \<le> n1" by simp
  then show ?thesis
    using library_info_fuel [OF _ assms(2)] assms(1) by simp
qed

lemma library_info_agree:
  assumes "''LSL_LIBRARY_INFO_STR'' \<in> S" and "closed_under env1 S" and "agree_on S env1 env2"
  shows "library_info n env1 = library_info n env2"
proof -
  have "names [adj (Ident ''LSL_LIBRARY_INFO_STR'')] \<subseteq> S"
    using assms(1) by (auto simp: names_iff adj_def)
  moreover have "\<forall>x \<in> S. env2 x = env1 x"
    using assms(3) by (simp add: agree_on_def)
  moreover have "\<forall>x \<in> S. \<forall>m. env1 x = Some m \<longrightarrow> reads m \<subseteq> S"
    using assms(2) by (auto simp: closed_under_def split: option.splits)
  ultimately have "expand n env2 [adj (Ident ''LSL_LIBRARY_INFO_STR'')] =
      expand n env1 [adj (Ident ''LSL_LIBRARY_INFO_STR'')]"
    using expand_agree [of "[adj (Ident ''LSL_LIBRARY_INFO_STR'')]" S env2 env1 n] by blast
  then show ?thesis
    by (simp add: library_info_def)
qed

lemma library_info_fields:
  assumes h: "header_macros env" and n: "5 \<le> n"
    and V: "expand m env [argument ''LSL_VERSION_INFO''] = Inr A" "one_argument A" "m + 2 \<le> n"
    and T: "expand m' env [argument ''LSL_LIBTYPE_DART''] = Inr B" "one_argument B" "m' + 4 \<le> n"
  shows "library_info n env = Inr [StrLit (stringify A @ ''/'' @ stringify B)]"
proof -
  define k where "k = n - 5"
  have k: "n = Suc (Suc (Suc (Suc (Suc k))))"
    using n unfolding k_def by arith
  have "m \<le> Suc (Suc (Suc k))" and "m' \<le> Suc k"
    using V(3) T(3) k by simp_all
  then have "expand (Suc (Suc (Suc k))) env [argument ''LSL_VERSION_INFO''] = Inr A"
    and "expand (Suc k) env [argument ''LSL_LIBTYPE_DART''] = Inr B"
    using V(1) T(1) by (auto intro: expand_fuel)
  then show ?thesis
    using library_info_core [OF h _ V(2) _ T(2)] k by simp
qed

lemmas run_defs = library_info_def expand.simps(2) macro_of_def MSTR_def MSTR_EXPAND_def
  LSL_LIBRARY_INFO_STR_def LSL_LIBTYPE_DART_def adj_def spc_def is_paste_def is_hash_def
  is_punct_def arity_ok_def param_index_def eval_nat_numeral stringify_def quoted_def
  spelling_def

section \<open>The formatted constant\<close>

text \<open>
  C1. For every version token \<open>V\<close> and link-type token \<open>T\<close> (sequences of bare tokens,
  each fit to be one argument), a use of \<^verbatim>\<open>LSL_LIBRARY_INFO_STR\<close> is replaced by one
  string literal, which holds exactly the stringified \<open>V\<close>, one \<^verbatim>\<open>/\<close> and the stringified
  \<open>T\<close>: no other character. For a single token \<open>v\<close> and a single token \<open>t\<close> it is the
  spelling of \<open>v\<close>, the separator and the spelling of \<open>t\<close>, with no white space around
  them, whatever white space stood before the tokens. Five units of fuel are enough.
\<close>

theorem formatted_constant:
  assumes "header_macros env" and "5 \<le> n"
    and "env ''LSL_VERSION_INFO'' = Some (ObjLike V)"
    and "list_all (bare env) V" and "one_argument V"
    and "env ''LSL_LIBTYPE_DART'' = Some (ObjLike T)"
    and "list_all (bare env) T" and "one_argument T"
  shows "library_info n env = Inr [StrLit (stringify V @ ''/'' @ stringify T)] \<and>
         (V = [v] \<and> T = [t] \<longrightarrow>
            library_info n env = Inr [StrLit (quoted (tk v) @ ''/'' @ quoted (tk t))])"
proof -
  have "library_info n env = Inr [StrLit (stringify V @ ''/'' @ stringify T)]"
    using assms by (rule library_info_bare)
  then show ?thesis
    by (simp add: stringify_def)
qed

theorem formatted_constant_witness:
  "library_info 5 (formatter_env [spc (PPNumber ''2.0'')] [spc (Ident ''STATIC'')]) =
     Inr [StrLit ''2.0/STATIC'']"
  using formatted_constant [of "formatter_env [spc (PPNumber ''2.0'')] [spc (Ident ''STATIC'')]" 5
      "[spc (PPNumber ''2.0'')]" "[spc (Ident ''STATIC'')]" "spc (PPNumber ''2.0'')"
      "spc (Ident ''STATIC'')"]
  by (simp add: eval_defs)

text \<open>
  C2 (as amended). The header itself gives the link-type token. When
  \<^verbatim>\<open>LSL_LIBRARY_INFO_STR\<close> is not defined before the header, the header defines
  \<^verbatim>\<open>LSL_LIBTYPE_DART\<close> as \<^verbatim>\<open>link:SHARED\<close> whatever the build defined it as. So whatever
  the version token is replaced by (\<open>A\<close>, fit to be one argument), and whatever else the
  build defines as long as the words \<^verbatim>\<open>link\<close> and \<^verbatim>\<open>SHARED\<close> are not macros themselves,
  the constant is the stringified \<open>A\<close>, the separator and the fixed text \<^verbatim>\<open>link:SHARED\<close>;
  for a version token \<open>V\<close> of bare tokens it is the stringified \<open>V\<close>, the separator and
  \<^verbatim>\<open>link:SHARED\<close>.
\<close>

theorem link_type_fixed:
  assumes "''LSL_LIBRARY_INFO_STR'' \<notin> dom env0"
    and "env0 ''link'' = None" and "env0 ''SHARED'' = None" and "5 \<le> n"
  shows "(expand m (header_table env0) [argument ''LSL_VERSION_INFO''] = Inr A \<and>
          one_argument A \<and> m + 2 \<le> n \<longrightarrow>
            translation_unit env0 n = Inr [StrLit (stringify A @ ''/'' @ ''link:SHARED'')]) \<and>
         (env0 ''LSL_VERSION_INFO'' = Some (ObjLike V) \<and>
          list_all (bare (header_table env0)) V \<and> one_argument V \<longrightarrow>
            translation_unit env0 n = Inr [StrLit (stringify V @ ''/'' @ ''link:SHARED'')])"
proof -
  let ?T = "[adj (Ident ''link''), adj (Punct '':''), adj (Ident ''SHARED'')]"
  let ?e = "header_table env0"
  have h: "header_macros ?e"
    by (rule header_table_macros)
  have tu: "translation_unit env0 n = library_info n ?e"
    using header_defines [OF assms(1)] by (simp add: translation_unit_def)
  have T: "list_all (bare ?e) ?T" "one_argument ?T"
    using assms(2,3)
    by (simp_all add: header_table_def bare_def one_argument_def is_paste_def is_punct_def adj_def)
  obtain B where B: "expand (Suc 0) ?e [argument ''LSL_LIBTYPE_DART''] = Inr B" "one_argument B"
      "stringify B = ''link:SHARED''"
    using argument_defined [of ?e "''LSL_LIBTYPE_DART''" ?T 0] T
    by (auto simp: header_table_def LSL_LIBTYPE_DART_def example_strings)
  show ?thesis
  proof (intro conjI impI)
    assume "expand m ?e [argument ''LSL_VERSION_INFO''] = Inr A \<and> one_argument A \<and> m + 2 \<le> n"
    then show "translation_unit env0 n = Inr [StrLit (stringify A @ ''/'' @ ''link:SHARED'')]"
      using library_info_fields [OF h assms(4) _ _ _ B(1,2), of m A] assms(4) B(3) tu by simp
  next
    assume V: "env0 ''LSL_VERSION_INFO'' = Some (ObjLike V) \<and>
      list_all (bare ?e) V \<and> one_argument V"
    then have "?e ''LSL_VERSION_INFO'' = Some (ObjLike V)"
      by (simp add: header_table_def)
    then have "library_info n ?e = Inr [StrLit (stringify V @ ''/'' @ stringify ?T)]"
      using h V T assms(4)
      by (intro library_info_bare) (simp_all add: header_table_def LSL_LIBTYPE_DART_def)
    then show "translation_unit env0 n = Inr [StrLit (stringify V @ ''/'' @ ''link:SHARED'')]"
      using tu by (simp add: example_strings)
  qed
qed

theorem link_type_fixed_witness:
  "translation_unit [''LSL_VERSION_INFO'' \<mapsto> ObjLike [adj (PPNumber ''1.4.0'')],
       ''LSL_LIBTYPE_DART'' \<mapsto> ObjLike [adj (Ident ''STATIC'')]] 5 =
     Inr [StrLit ''1.4.0/link:SHARED''] \<and>
   translation_unit [''LSL_LIBTYPE_DART'' \<mapsto> ObjLike [adj (Ident ''STATIC'')]] 5 =
     Inr [StrLit ''LSL_VERSION_INFO/link:SHARED'']"
proof -
  let ?e = "[''LSL_LIBTYPE_DART'' \<mapsto> ObjLike [adj (Ident ''STATIC'')]]"
  have x: "expand 0 (header_table ?e) [argument ''LSL_VERSION_INFO''] =
      Inr [argument ''LSL_VERSION_INFO'']"
    by (rule expand_undefined [of _ "''LSL_VERSION_INFO''"])
      (simp_all add: argument_def header_table_def)
  have o: "one_argument [argument ''LSL_VERSION_INFO'']"
    by (simp add: one_argument_def is_punct_def argument_def)
  have "translation_unit ?e 5 = Inr [StrLit ''LSL_VERSION_INFO/link:SHARED'']"
    using link_type_fixed [where ?env0.0 = ?e and n = 5 and m = 0
        and A = "[argument ''LSL_VERSION_INFO'']"] x o
    by simp
  moreover have "translation_unit [''LSL_VERSION_INFO'' \<mapsto> ObjLike [adj (PPNumber ''1.4.0'')],
       ''LSL_LIBTYPE_DART'' \<mapsto> ObjLike [adj (Ident ''STATIC'')]] 5 =
     Inr [StrLit ''1.4.0/link:SHARED'']"
    using link_type_fixed [where ?env0.0 = "[''LSL_VERSION_INFO'' \<mapsto>
        ObjLike [adj (PPNumber ''1.4.0'')], ''LSL_LIBTYPE_DART'' \<mapsto> ObjLike [adj (Ident ''STATIC'')]]"
        and V = "[adj (PPNumber ''1.4.0'')]" and n = 5 and m = 0 and A = "[]"]
    by (simp add: header_table_def eval_defs)
  ultimately show ?thesis by simp
qed

text \<open>
  C2 as first stated has the field the same whatever the build defines. A build that
  defines \<^verbatim>\<open>SHARED\<close> as \<^verbatim>\<open>1\<close> gets \<^verbatim>\<open>link:1\<close> after the separator, and a build that
  defines \<^verbatim>\<open>LSL_LIBRARY_INFO_STR\<close> itself keeps its own string, the header being skipped.
\<close>

theorem link_type_fixed_counterexample:
  "translation_unit [''LSL_VERSION_INFO'' \<mapsto> ObjLike [adj (PPNumber ''1.2.3'')],
       ''SHARED'' \<mapsto> ObjLike [adj (PPNumber ''1'')]] 6 = Inr [StrLit ''1.2.3/link:1''] \<and>
   translation_unit [''LSL_VERSION_INFO'' \<mapsto> ObjLike [adj (PPNumber ''1.2.3'')],
       ''LSL_LIBRARY_INFO_STR'' \<mapsto> ObjLike [adj (StrLit ''custom'')]] 6 =
     Inr [StrLit ''custom'']"
proof -
  let ?e = "[''LSL_VERSION_INFO'' \<mapsto> ObjLike [adj (PPNumber ''1.2.3'')],
       ''SHARED'' \<mapsto> ObjLike [adj (PPNumber ''1'')]]"
  have "lsl_lib_version_h ?e = Inr (header_table ?e)"
    by (rule header_defines) simp
  moreover have "library_info 6 (header_table ?e) = Inr [StrLit ''1.2.3/link:1'']"
    by (simp add: header_table_def run_defs)
  moreover have "library_info 6 [''LSL_VERSION_INFO'' \<mapsto> ObjLike [adj (PPNumber ''1.2.3'')],
       ''LSL_LIBRARY_INFO_STR'' \<mapsto> ObjLike [adj (StrLit ''custom'')]] = Inr [StrLit ''custom'']"
    by (simp add: library_info_def expand.simps(2) macro_of_def adj_def is_paste_def
        is_punct_def eval_nat_numeral)
  ultimately show ?thesis
    by (simp add: translation_unit_def header_skipped)
qed

text \<open>
  C3 (as amended). With the version token \<^verbatim>\<open>1.2.3\<close> and the link-type token \<^verbatim>\<open>SHARED\<close>
  the constant is \<^verbatim>\<open>"1.2.3/SHARED"\<close>, and with \<^verbatim>\<open>0.0.0-dev\<close> (a pp-number, a minus sign
  and an identifier) and \<^verbatim>\<open>STATIC\<close> it is \<^verbatim>\<open>"0.0.0-dev/STATIC"\<close>. In the header as it is,
  where the link-type token is \<^verbatim>\<open>link:SHARED\<close>, the version token \<^verbatim>\<open>1.2.3\<close> gives
  \<^verbatim>\<open>"1.2.3/link:SHARED"\<close>.
\<close>

theorem formatter_examples:
  assumes "5 \<le> n"
  shows "library_info n (formatter_env [adj (PPNumber ''1.2.3'')] [adj (Ident ''SHARED'')]) =
           Inr [StrLit ''1.2.3/SHARED''] \<and>
         library_info n (formatter_env
             [adj (PPNumber ''0.0.0''), adj (Punct ''-''), adj (Ident ''dev'')]
             [adj (Ident ''STATIC'')]) =
           Inr [StrLit ''0.0.0-dev/STATIC''] \<and>
         translation_unit [''LSL_VERSION_INFO'' \<mapsto> ObjLike [adj (PPNumber ''1.2.3'')]] n =
           Inr [StrLit ''1.2.3/link:SHARED'']"
proof -
  let ?e = "[''LSL_VERSION_INFO'' \<mapsto> ObjLike [adj (PPNumber ''1.2.3'')]]"
  let ?e' = "?e(''MSTR_EXPAND'' \<mapsto> MSTR_EXPAND, ''MSTR'' \<mapsto> MSTR,
           ''LSL_LIBTYPE_DART'' \<mapsto> LSL_LIBTYPE_DART,
           ''LSL_LIBRARY_INFO_STR'' \<mapsto> LSL_LIBRARY_INFO_STR)"
  have a: "library_info n (formatter_env [adj (PPNumber ''1.2.3'')] [adj (Ident ''SHARED'')]) =
      Inr [StrLit (stringify [adj (PPNumber ''1.2.3'')] @ ''/'' @
        stringify [adj (Ident ''SHARED'')])]"
    using assms by (intro library_info_bare) (simp_all add: eval_defs)
  have b: "library_info n (formatter_env
             [adj (PPNumber ''0.0.0''), adj (Punct ''-''), adj (Ident ''dev'')]
             [adj (Ident ''STATIC'')]) =
      Inr [StrLit (stringify [adj (PPNumber ''0.0.0''), adj (Punct ''-''), adj (Ident ''dev'')] @
        ''/'' @ stringify [adj (Ident ''STATIC'')])]"
    using assms by (intro library_info_bare) (simp_all add: eval_defs)
  have h: "lsl_lib_version_h ?e = Inr ?e'"
    by (rule header_fresh) simp_all
  have c: "library_info n ?e' = Inr [StrLit (stringify [adj (PPNumber ''1.2.3'')] @ ''/'' @
      stringify [adj (Ident ''link''), adj (Punct '':''), adj (Ident ''SHARED'')])]"
    using assms by (intro library_info_bare) (simp_all add: LSL_LIBTYPE_DART_def eval_defs)
  show ?thesis
    using a b c by (simp add: translation_unit_def h example_strings)
qed

theorem formatter_examples_witness:
  "library_info 5 (formatter_env [adj (PPNumber ''1.2.3'')] [adj (Ident ''SHARED'')]) =
     Inr [StrLit ''1.2.3/SHARED''] \<and>
   library_info 5 (formatter_env
       [adj (PPNumber ''0.0.0''), adj (Punct ''-''), adj (Ident ''dev'')]
       [adj (Ident ''STATIC'')]) =
     Inr [StrLit ''0.0.0-dev/STATIC''] \<and>
   translation_unit [''LSL_VERSION_INFO'' \<mapsto> ObjLike [adj (PPNumber ''1.2.3'')]] 5 =
     Inr [StrLit ''1.2.3/link:SHARED'']"
  using formatter_examples [of 5] by simp

text \<open>
  C3 as first stated has \<^verbatim>\<open>"1.2.3/SHARED"\<close> for the header as it is; a source file that
  is compiled with \<^verbatim>\<open>LSL_VERSION_INFO\<close> defined as \<^verbatim>\<open>1.2.3\<close>, includes the header and uses
  the name gets another string.
\<close>

theorem formatter_examples_counterexample:
  "translation_unit [''LSL_VERSION_INFO'' \<mapsto> ObjLike [adj (PPNumber ''1.2.3'')]] 5 =
     Inr [StrLit ''1.2.3/link:SHARED''] \<and>
   translation_unit [''LSL_VERSION_INFO'' \<mapsto> ObjLike [adj (PPNumber ''1.2.3'')]] 5 \<noteq>
     Inr [StrLit ''1.2.3/SHARED'']"
proof -
  let ?e = "[''LSL_VERSION_INFO'' \<mapsto> ObjLike [adj (PPNumber ''1.2.3'')]]"
  let ?e' = "?e(''MSTR_EXPAND'' \<mapsto> MSTR_EXPAND, ''MSTR'' \<mapsto> MSTR,
           ''LSL_LIBTYPE_DART'' \<mapsto> LSL_LIBTYPE_DART,
           ''LSL_LIBRARY_INFO_STR'' \<mapsto> LSL_LIBRARY_INFO_STR)"
  have h: "lsl_lib_version_h ?e = Inr ?e'"
    by (rule header_fresh) simp_all
  have "library_info 5 ?e' = Inr [StrLit (stringify [adj (PPNumber ''1.2.3'')] @ ''/'' @
      stringify [adj (Ident ''link''), adj (Punct '':''), adj (Ident ''SHARED'')])]"
    by (rule library_info_bare) (simp_all add: LSL_LIBTYPE_DART_def eval_defs)
  then show ?thesis
    by (simp add: translation_unit_def h example_strings)
qed

text \<open>
  C4 (as amended). A token that is not defined is no error: \<^verbatim>\<open>MSTR\<close> finds nothing to
  replace in its argument and stringifies the name itself. So without a version token the
  first field is the text \<^verbatim>\<open>LSL_VERSION_INFO\<close>, without a link-type token the second
  field is the text \<^verbatim>\<open>LSL_LIBTYPE_DART\<close>, and in each case the use of the name is replaced
  by one string literal.
\<close>

theorem undefined_token_is_stringified:
  assumes "header_macros env" and "5 \<le> n"
  shows "(env ''LSL_VERSION_INFO'' = None \<and> env ''LSL_LIBTYPE_DART'' = Some (ObjLike T) \<and>
          list_all (bare env) T \<and> one_argument T \<longrightarrow>
            library_info n env = Inr [StrLit (''LSL_VERSION_INFO'' @ ''/'' @ stringify T)]) \<and>
         (env ''LSL_VERSION_INFO'' = Some (ObjLike V) \<and> list_all (bare env) V \<and>
          one_argument V \<and> env ''LSL_LIBTYPE_DART'' = None \<longrightarrow>
            library_info n env = Inr [StrLit (stringify V @ ''/'' @ ''LSL_LIBTYPE_DART'')]) \<and>
         (env ''LSL_VERSION_INFO'' = None \<and> env ''LSL_LIBTYPE_DART'' = None \<longrightarrow>
            library_info n env = Inr [StrLit ''LSL_VERSION_INFO/LSL_LIBTYPE_DART''])"
proof (intro conjI impI)
  assume "env ''LSL_VERSION_INFO'' = None \<and> env ''LSL_LIBTYPE_DART'' = Some (ObjLike T) \<and>
    list_all (bare env) T \<and> one_argument T"
  then show "library_info n env = Inr [StrLit (''LSL_VERSION_INFO'' @ ''/'' @ stringify T)]"
    using assms by (intro library_info_arguments argument_undefined argument_defined) simp_all
next
  assume "env ''LSL_VERSION_INFO'' = Some (ObjLike V) \<and> list_all (bare env) V \<and>
    one_argument V \<and> env ''LSL_LIBTYPE_DART'' = None"
  then show "library_info n env = Inr [StrLit (stringify V @ ''/'' @ ''LSL_LIBTYPE_DART'')]"
    using assms by (intro library_info_arguments argument_undefined argument_defined) simp_all
next
  assume "env ''LSL_VERSION_INFO'' = None \<and> env ''LSL_LIBTYPE_DART'' = None"
  then have "library_info n env =
      Inr [StrLit (''LSL_VERSION_INFO'' @ ''/'' @ ''LSL_LIBTYPE_DART'')]"
    using assms by (intro library_info_arguments argument_undefined) simp_all
  then show "library_info n env = Inr [StrLit ''LSL_VERSION_INFO/LSL_LIBTYPE_DART'']"
    by simp
qed

theorem undefined_token_is_stringified_witness:
  "library_info 5 (header_only(''LSL_LIBTYPE_DART'' \<mapsto> ObjLike [adj (Ident ''STATIC'')])) =
     Inr [StrLit ''LSL_VERSION_INFO/STATIC''] \<and>
   library_info 5 (header_only(''LSL_VERSION_INFO'' \<mapsto> ObjLike [adj (PPNumber ''1.2.3'')])) =
     Inr [StrLit ''1.2.3/LSL_LIBTYPE_DART''] \<and>
   library_info 5 header_only = Inr [StrLit ''LSL_VERSION_INFO/LSL_LIBTYPE_DART'']"
proof -
  have "library_info 5 (header_only(''LSL_LIBTYPE_DART'' \<mapsto> ObjLike [adj (Ident ''STATIC'')])) =
     Inr [StrLit ''LSL_VERSION_INFO/STATIC'']"
    using undefined_token_is_stringified
      [of "header_only(''LSL_LIBTYPE_DART'' \<mapsto> ObjLike [adj (Ident ''STATIC'')])" 5
        "[adj (Ident ''STATIC'')]"]
    by (simp add: header_only_def eval_defs)
  moreover have
    "library_info 5 (header_only(''LSL_VERSION_INFO'' \<mapsto> ObjLike [adj (PPNumber ''1.2.3'')])) =
     Inr [StrLit ''1.2.3/LSL_LIBTYPE_DART'']"
    using undefined_token_is_stringified
      [of "header_only(''LSL_VERSION_INFO'' \<mapsto> ObjLike [adj (PPNumber ''1.2.3'')])" 5 _
        "[adj (PPNumber ''1.2.3'')]"]
    by (simp add: header_only_def eval_defs)
  moreover have "library_info 5 header_only = Inr [StrLit ''LSL_VERSION_INFO/LSL_LIBTYPE_DART'']"
    using undefined_token_is_stringified [of header_only 5]
    by (simp add: header_only_def eval_defs)
  ultimately show ?thesis by simp
qed

text \<open>
  C4 as first stated has the build fail when a token is not defined; a source file that
  is compiled with no macro defined, includes the header and uses the name gets a string
  literal, and no error.
\<close>

theorem undefined_token_counterexample:
  "translation_unit Map.empty 5 = Inr [StrLit ''LSL_VERSION_INFO/link:SHARED''] \<and>
   \<not> isl (translation_unit Map.empty 5)"
proof -
  let ?e' = "[''MSTR_EXPAND'' \<mapsto> MSTR_EXPAND, ''MSTR'' \<mapsto> MSTR,
           ''LSL_LIBTYPE_DART'' \<mapsto> LSL_LIBTYPE_DART,
           ''LSL_LIBRARY_INFO_STR'' \<mapsto> LSL_LIBRARY_INFO_STR]"
  have h: "lsl_lib_version_h Map.empty = Inr ?e'"
    using header_fresh [of Map.empty] by simp
  have "library_info 5 ?e' = Inr [StrLit (''LSL_VERSION_INFO'' @ ''/'' @
      stringify [adj (Ident ''link''), adj (Punct '':''), adj (Ident ''SHARED'')])]"
    by (intro library_info_arguments argument_undefined argument_defined)
      (simp_all add: LSL_LIBTYPE_DART_def header_macros_def bare_def one_argument_def
        is_paste_def is_punct_def adj_def)
  then show ?thesis
    by (simp add: translation_unit_def h example_strings)
qed

text \<open>
  C5. When the link-type token is empty, the constant is the stringified version token
  followed by the separator: the field after \<^verbatim>\<open>/\<close> is empty, and the result is a string
  literal, not an error.
\<close>

theorem empty_link_type:
  assumes "header_macros env" and "5 \<le> n"
    and "env ''LSL_VERSION_INFO'' = Some (ObjLike V)"
    and "list_all (bare env) V" and "one_argument V"
    and "env ''LSL_LIBTYPE_DART'' = Some (ObjLike [])"
  shows "library_info n env = Inr [StrLit (stringify V @ ''/'')]"
  using library_info_bare [OF assms(1-6)] by (simp add: stringify_def one_argument_def)

theorem empty_link_type_witness:
  "library_info 5 (formatter_env [adj (PPNumber ''1.2.3'')] []) = Inr [StrLit ''1.2.3/'']"
  using empty_link_type [of "formatter_env [adj (PPNumber ''1.2.3'')] []" 5
      "[adj (PPNumber ''1.2.3'')]"]
  by (simp add: eval_defs)

text \<open>
  C6 (as amended). The formatting is pure: two uses of the name where the same macros are
  defined give the same string, whatever fuel each is given. The string depends on the two
  tokens and on the definitions of the macros that the tokens name, and on nothing else:
  it is the same in two macro tables that define every name the constant can reach the
  same way. For tokens that name no macro it depends on the two tokens only.
\<close>

theorem formatter_deterministic:
  "(library_info n1 env = Inr r1 \<and> library_info n2 env = Inr r2 \<longrightarrow> r1 = r2) \<and>
   (''LSL_LIBRARY_INFO_STR'' \<in> S \<and> closed_under env1 S \<and> agree_on S env1 env2 \<longrightarrow>
      library_info n env1 = library_info n env2) \<and>
   (header_macros env1 \<and> header_macros env2 \<and> 5 \<le> n1 \<and> 5 \<le> n2 \<and>
    env1 ''LSL_VERSION_INFO'' = Some (ObjLike V) \<and> env2 ''LSL_VERSION_INFO'' = Some (ObjLike V) \<and>
    env1 ''LSL_LIBTYPE_DART'' = Some (ObjLike T) \<and> env2 ''LSL_LIBTYPE_DART'' = Some (ObjLike T) \<and>
    list_all (bare env1) V \<and> list_all (bare env2) V \<and> one_argument V \<and>
    list_all (bare env1) T \<and> list_all (bare env2) T \<and> one_argument T \<longrightarrow>
      library_info n1 env1 = library_info n2 env2)"
proof (intro conjI impI)
  assume "library_info n1 env = Inr r1 \<and> library_info n2 env = Inr r2"
  then show "r1 = r2"
    using library_info_unique by blast
next
  assume "''LSL_LIBRARY_INFO_STR'' \<in> S \<and> closed_under env1 S \<and> agree_on S env1 env2"
  then show "library_info n env1 = library_info n env2"
    using library_info_agree by blast
next
  assume a: "header_macros env1 \<and> header_macros env2 \<and> 5 \<le> n1 \<and> 5 \<le> n2 \<and>
    env1 ''LSL_VERSION_INFO'' = Some (ObjLike V) \<and> env2 ''LSL_VERSION_INFO'' = Some (ObjLike V) \<and>
    env1 ''LSL_LIBTYPE_DART'' = Some (ObjLike T) \<and> env2 ''LSL_LIBTYPE_DART'' = Some (ObjLike T) \<and>
    list_all (bare env1) V \<and> list_all (bare env2) V \<and> one_argument V \<and>
    list_all (bare env1) T \<and> list_all (bare env2) T \<and> one_argument T"
  have "library_info n1 env1 = Inr [StrLit (stringify V @ ''/'' @ stringify T)]"
    using a by (intro library_info_bare) simp_all
  moreover have "library_info n2 env2 = Inr [StrLit (stringify V @ ''/'' @ stringify T)]"
    using a by (intro library_info_bare) simp_all
  ultimately show "library_info n1 env1 = library_info n2 env2" by simp
qed

theorem formatter_deterministic_witness:
  "library_info 5 (formatter_env [adj (PPNumber ''1.2.3'')] [adj (Ident ''SHARED'')]) =
     Inr [StrLit ''1.2.3/SHARED''] \<and>
   library_info 9 ((formatter_env [adj (PPNumber ''1.2.3'')] [adj (Ident ''SHARED'')])
       (''NDEBUG'' \<mapsto> ObjLike [adj (PPNumber ''1'')])) =
     Inr [StrLit ''1.2.3/SHARED''] \<and>
   library_info 6 ((formatter_env [adj (Ident ''FOO'')] [adj (Ident ''SHARED'')])
       (''FOO'' \<mapsto> ObjLike [adj (PPNumber ''7'')], ''NDEBUG'' \<mapsto> ObjLike [adj (PPNumber ''1'')])) =
     Inr [StrLit ''7/SHARED'']"
proof -
  let ?e1 = "formatter_env [adj (PPNumber ''1.2.3'')] [adj (Ident ''SHARED'')]"
  let ?e2 = "?e1(''NDEBUG'' \<mapsto> ObjLike [adj (PPNumber ''1'')])"
  let ?f1 = "(formatter_env [adj (Ident ''FOO'')] [adj (Ident ''SHARED'')])
       (''FOO'' \<mapsto> ObjLike [adj (PPNumber ''7'')])"
  let ?f2 = "?f1(''NDEBUG'' \<mapsto> ObjLike [adj (PPNumber ''1'')])"
  let ?S = "{''LSL_LIBRARY_INFO_STR'', ''MSTR'', ''MSTR_EXPAND'', ''LSL_VERSION_INFO'',
    ''LSL_LIBTYPE_DART'', ''FOO'', ''SHARED''}"
  have a: "library_info 5 ?e1 = Inr [StrLit ''1.2.3/SHARED'']"
    by (simp add: formatter_env_def run_defs)
  have b: "library_info 5 ?e1 = library_info 9 ?e2"
    using formatter_deterministic [where ?env1.0 = ?e1 and ?env2.0 = ?e2 and ?n1.0 = 5
        and ?n2.0 = 9 and V = "[adj (PPNumber ''1.2.3'')]" and T = "[adj (Ident ''SHARED'')]"]
    by (simp add: eval_defs)
  have c: "library_info 6 ?f1 = Inr [StrLit ''7/SHARED'']"
    by (simp add: formatter_env_def run_defs)
  have "closed_under ?f1 ?S" and "agree_on ?S ?f1 ?f2"
    by (auto simp: closed_under_def agree_on_def reads_def replacement_list_def names.simps
        formatter_env_def MSTR_def MSTR_EXPAND_def LSL_LIBRARY_INFO_STR_def adj_def spc_def
        is_paste_def is_punct_def)
  then have d: "library_info 6 ?f1 = library_info 6 ?f2"
    using formatter_deterministic [where ?env1.0 = ?f1 and ?env2.0 = ?f2 and n = 6 and S = ?S]
    by simp
  show ?thesis
    using a b c d by simp
qed

text \<open>
  C6 as first stated has the string depend on the two tokens only. With the same version
  token \<^verbatim>\<open>FOO\<close> and the same link-type token, a build that defines \<^verbatim>\<open>FOO\<close> as \<^verbatim>\<open>7\<close> and
  a build that defines it as \<^verbatim>\<open>8\<close> get two strings.
\<close>

theorem formatter_deterministic_counterexample:
  "library_info 6 ((formatter_env [adj (Ident ''FOO'')] [adj (Ident ''SHARED'')])
      (''FOO'' \<mapsto> ObjLike [adj (PPNumber ''7'')])) = Inr [StrLit ''7/SHARED''] \<and>
   library_info 6 ((formatter_env [adj (Ident ''FOO'')] [adj (Ident ''SHARED'')])
      (''FOO'' \<mapsto> ObjLike [adj (PPNumber ''8'')])) = Inr [StrLit ''8/SHARED'']"
  by (simp add: formatter_env_def run_defs)

section \<open>The header as a whole\<close>

text \<open>
  C7 (as amended). The header changes nothing but the four names \<^verbatim>\<open>MSTR_EXPAND\<close>,
  \<^verbatim>\<open>MSTR\<close>, \<^verbatim>\<open>LSL_LIBTYPE_DART\<close> and \<^verbatim>\<open>LSL_LIBRARY_INFO_STR\<close>. When
  \<^verbatim>\<open>LSL_LIBRARY_INFO_STR\<close> is defined already it changes nothing at all; otherwise it
  gives the four names their definitions, the same whatever was defined before, and
  leaves every other name as it was. The replacement list of the constant is fixed by
  that; its string is made at each use from the macros defined there, and stays the same
  when a macro that the constant cannot reach is defined later.
\<close>

theorem header_frame:
  "lsl_lib_version_h env =
     Inr (if ''LSL_LIBRARY_INFO_STR'' \<in> dom env then env else header_table env) \<and>
   (x \<notin> {''MSTR_EXPAND'', ''MSTR'', ''LSL_LIBTYPE_DART'', ''LSL_LIBRARY_INFO_STR''} \<longrightarrow>
      header_table env x = env x) \<and>
   header_table env ''MSTR_EXPAND'' = Some MSTR_EXPAND \<and>
   header_table env ''MSTR'' = Some MSTR \<and>
   header_table env ''LSL_LIBTYPE_DART'' = Some LSL_LIBTYPE_DART \<and>
   header_table env ''LSL_LIBRARY_INFO_STR'' = Some LSL_LIBRARY_INFO_STR \<and>
   (''LSL_LIBRARY_INFO_STR'' \<in> S \<and> closed_under e S \<and> y \<notin> S \<longrightarrow>
      library_info n (e(y \<mapsto> m)) = library_info n e)"
proof -
  have "library_info n (e(y \<mapsto> m)) = library_info n e"
    if "''LSL_LIBRARY_INFO_STR'' \<in> S" "closed_under e S" "y \<notin> S"
    using library_info_agree [of S e "e(y \<mapsto> m)" n] that by (simp add: agree_on_def)
  then show ?thesis
    by (simp add: header_skipped header_defines header_table_def)
qed

theorem header_frame_witness:
  "lsl_lib_version_h [''NDEBUG'' \<mapsto> ObjLike []] = Inr (header_table [''NDEBUG'' \<mapsto> ObjLike []]) \<and>
   header_table [''NDEBUG'' \<mapsto> ObjLike []] ''NDEBUG'' = Some (ObjLike []) \<and>
   header_table [''NDEBUG'' \<mapsto> ObjLike []] ''LSL_LIBRARY_INFO_STR'' = Some LSL_LIBRARY_INFO_STR \<and>
   library_info 5
     ((header_table [''LSL_VERSION_INFO'' \<mapsto> ObjLike [adj (PPNumber ''1.2.3'')]])
        (''NDEBUG'' \<mapsto> ObjLike [])) =
     Inr [StrLit ''1.2.3/link:SHARED'']"
proof -
  let ?e = "header_table [''LSL_VERSION_INFO'' \<mapsto> ObjLike [adj (PPNumber ''1.2.3'')]]"
  let ?S = "{''LSL_LIBRARY_INFO_STR'', ''MSTR'', ''MSTR_EXPAND'', ''LSL_VERSION_INFO'',
    ''LSL_LIBTYPE_DART'', ''link'', ''SHARED''}"
  have v: "library_info 5 ?e = Inr [StrLit ''1.2.3/link:SHARED'']"
    by (simp add: header_table_def run_defs)
  have "closed_under ?e ?S"
    by (auto simp: closed_under_def reads_def replacement_list_def names.simps header_table_def
        MSTR_def MSTR_EXPAND_def LSL_LIBRARY_INFO_STR_def LSL_LIBTYPE_DART_def adj_def spc_def
        is_paste_def is_punct_def)
  then have "library_info 5 (?e(''NDEBUG'' \<mapsto> ObjLike [])) = library_info 5 ?e"
    using header_frame [where env = "[''NDEBUG'' \<mapsto> ObjLike []]" and x = "''NDEBUG''"
        and S = ?S and e = ?e and y = "''NDEBUG''" and n = 5 and m = "ObjLike []"]
    by simp
  then show ?thesis
    using v header_frame [where env = "[''NDEBUG'' \<mapsto> ObjLike []]" and x = "''NDEBUG''"
        and S = ?S and e = ?e and y = "''NDEBUG''" and n = 5 and m = "ObjLike []"]
    by simp
qed

text \<open>
  C7 as first stated has the string fixed for the whole build. A source file that uses
  the name, defines \<^verbatim>\<open>LSL_VERSION_INFO\<close> anew and uses the name again gets two strings.
\<close>

theorem header_frame_counterexample:
  "translation_unit [''LSL_VERSION_INFO'' \<mapsto> ObjLike [adj (PPNumber ''1.2.3'')]] 5 =
     Inr [StrLit ''1.2.3/link:SHARED''] \<and>
   then_do
     (then_do (lsl_lib_version_h [''LSL_VERSION_INFO'' \<mapsto> ObjLike [adj (PPNumber ''1.2.3'')]])
        (define_macro ''LSL_VERSION_INFO'' (ObjLike [adj (PPNumber ''9.9'')])))
     (library_info 5) =
     Inr [StrLit ''9.9/link:SHARED'']"
proof -
  let ?e = "[''LSL_VERSION_INFO'' \<mapsto> ObjLike [adj (PPNumber ''1.2.3'')]]"
  have h: "lsl_lib_version_h ?e = Inr (header_table ?e)"
    by (rule header_defines) simp
  have d: "define_macro ''LSL_VERSION_INFO'' (ObjLike [adj (PPNumber ''9.9'')]) (header_table ?e) =
      Inr ((header_table ?e)(''LSL_VERSION_INFO'' \<mapsto> ObjLike [adj (PPNumber ''9.9'')]))"
    by (simp add: define_macro_def well_formed_def)
  have "library_info 5 (header_table ?e) = Inr [StrLit ''1.2.3/link:SHARED'']"
    by (simp add: header_table_def run_defs)
  moreover have "library_info 5
      ((header_table ?e)(''LSL_VERSION_INFO'' \<mapsto> ObjLike [adj (PPNumber ''9.9'')])) =
      Inr [StrLit ''9.9/link:SHARED'']"
    by (simp add: header_table_def run_defs)
  ultimately show ?thesis
    by (simp add: translation_unit_def h d)
qed

text \<open>
  C8. \<^verbatim>\<open>MSTR\<close> hands its argument to \<^verbatim>\<open>MSTR_EXPAND\<close> after macro replacement, so
  \<^verbatim>\<open>MSTR(t)\<close> is the string literal of what \<open>t\<close> is replaced by (\<open>ts\<close>, fit to be one
  argument), not of the name \<open>t\<close>. In particular \<^verbatim>\<open>MSTR(LSL_LIBTYPE_DART)\<close> is
  \<^verbatim>\<open>"link:SHARED"\<close>, and not \<^verbatim>\<open>"LSL_LIBTYPE_DART"\<close>, where the header's definition of
  \<^verbatim>\<open>LSL_LIBTYPE_DART\<close> stands.
\<close>

theorem two_level_stringification:
  assumes "env ''MSTR'' = Some MSTR" and "env ''MSTR_EXPAND'' = Some MSTR_EXPAND"
  shows "(expand (Suc k) env [t] = Inr ts \<and> one_argument ts \<longrightarrow>
            MSTR_of (Suc (Suc k)) env t = Inr [StrLit (stringify ts)]) \<and>
         (env ''LSL_LIBTYPE_DART'' = Some LSL_LIBTYPE_DART \<and> env ''link'' = None \<and>
          env ''SHARED'' = None \<longrightarrow>
            MSTR_of (Suc (Suc k)) env (adj (Ident ''LSL_LIBTYPE_DART'')) =
              Inr [StrLit ''link:SHARED''] \<and>
            MSTR_of (Suc (Suc k)) env (adj (Ident ''LSL_LIBTYPE_DART'')) \<noteq>
              Inr [StrLit ''LSL_LIBTYPE_DART''])"
proof -
  have general: "MSTR_of (Suc (Suc k)) env u = Inr [StrLit (stringify us)]"
    if u: "expand (Suc k) env [u] = Inr us" "one_argument us" for u us
  proof -
    have one: "one_argument [u]"
    proof (cases "macro_of env u")
      case None
      then have "expand (Suc k) env [u] = Inr [u]"
        by (simp add: expand_keep)
      with u show ?thesis by simp
    next
      case (Some m)
      then show ?thesis
        by (auto simp: macro_of_def one_argument_def is_punct_def split: pptoken.splits)
    qed
    obtain s where s: "tk s = StrLit (stringify us)"
        "expand (Suc (Suc k)) env [adj (Ident ''MSTR''), adj (Punct ''(''), u, adj (Punct '')'')] =
         keep s (expand k env [])"
      using mstr_step [OF assms _ _ _ _ _ one u,
          of "adj (Ident ''MSTR'')" "adj (Punct ''('')" "adj (Punct '')'')" "[]"]
      by (auto simp: is_punct_def adj_def)
    then show ?thesis by (simp add: MSTR_of_def)
  qed
  have particular: "MSTR_of (Suc (Suc k)) env (adj (Ident ''LSL_LIBTYPE_DART'')) =
      Inr [StrLit ''link:SHARED'']"
    if e: "env ''LSL_LIBTYPE_DART'' = Some LSL_LIBTYPE_DART" "env ''link'' = None"
      "env ''SHARED'' = None"
  proof -
    let ?T = "[adj (Ident ''link''), adj (Punct '':''), adj (Ident ''SHARED'')]"
    let ?R = "splice False (hsadd {''LSL_LIBTYPE_DART''} ?T) []"
    have b: "list_all (bare env) ?T"
      using e by (simp add: bare_def is_paste_def is_punct_def adj_def)
    have x: "expand (Suc k) env [adj (Ident ''LSL_LIBTYPE_DART'')] = Inr ?R"
      using expand_defined [of "adj (Ident ''LSL_LIBTYPE_DART'')" "''LSL_LIBTYPE_DART''" env ?T k]
        e b
      by (simp add: adj_def LSL_LIBTYPE_DART_def)
    have "one_argument ?R"
      by (simp add: one_argument_def is_punct_def adj_def)
    from general [OF x this] show ?thesis
      by (simp add: stringify_def quoted_def spelling_def adj_def)
  qed
  show ?thesis
  proof (intro conjI impI)
    assume "expand (Suc k) env [t] = Inr ts \<and> one_argument ts"
    then show "MSTR_of (Suc (Suc k)) env t = Inr [StrLit (stringify ts)]"
      using general [of t ts] by simp
  next
    assume "env ''LSL_LIBTYPE_DART'' = Some LSL_LIBTYPE_DART \<and> env ''link'' = None \<and>
      env ''SHARED'' = None"
    then show "MSTR_of (Suc (Suc k)) env (adj (Ident ''LSL_LIBTYPE_DART'')) =
        Inr [StrLit ''link:SHARED'']"
      using particular by simp
  next
    assume "env ''LSL_LIBTYPE_DART'' = Some LSL_LIBTYPE_DART \<and> env ''link'' = None \<and>
      env ''SHARED'' = None"
    then have "MSTR_of (Suc (Suc k)) env (adj (Ident ''LSL_LIBTYPE_DART'')) =
        Inr [StrLit ''link:SHARED'']"
      using particular by simp
    then show "MSTR_of (Suc (Suc k)) env (adj (Ident ''LSL_LIBTYPE_DART'')) \<noteq>
        Inr [StrLit ''LSL_LIBTYPE_DART'']"
      by simp
  qed
qed

theorem two_level_stringification_witness:
  "MSTR_of 2 (formatter_env [] [adj (Ident ''link''), adj (Punct '':''), adj (Ident ''SHARED'')])
      (adj (Ident ''dev'')) = Inr [StrLit ''dev''] \<and>
   MSTR_of 2 (formatter_env [] [adj (Ident ''link''), adj (Punct '':''), adj (Ident ''SHARED'')])
      (adj (Ident ''LSL_LIBTYPE_DART'')) = Inr [StrLit ''link:SHARED'']"
proof -
  let ?e = "formatter_env [] [adj (Ident ''link''), adj (Punct '':''), adj (Ident ''SHARED'')]"
  have m: "?e ''MSTR'' = Some MSTR" "?e ''MSTR_EXPAND'' = Some MSTR_EXPAND"
    by (simp_all add: formatter_env_def)
  have x: "expand (Suc 0) ?e [adj (Ident ''dev'')] = Inr [adj (Ident ''dev'')]"
    by (rule expand_undefined [of _ "''dev''"]) (simp_all add: adj_def formatter_env_def)
  have s: "one_argument [adj (Ident ''dev'')]" "stringify [adj (Ident ''dev'')] = ''dev''"
    by (simp_all add: one_argument_def is_punct_def adj_def stringify_def quoted_def
        spelling_def)
  have e: "?e ''LSL_LIBTYPE_DART'' = Some LSL_LIBTYPE_DART" "?e ''link'' = None"
    "?e ''SHARED'' = None"
    by (simp_all add: formatter_env_def LSL_LIBTYPE_DART_def)
  have two: "2 = Suc (Suc 0)"
    by simp
  show ?thesis
    using two_level_stringification [OF m, of 0 "adj (Ident ''dev'')" "[adj (Ident ''dev'')]"] x s e
    unfolding two by simp
qed

text \<open>
  C9. When \<^verbatim>\<open>LSL_LIBRARY_INFO_STR\<close> is defined already, the header defines nothing and
  leaves every definition as it is, that of \<^verbatim>\<open>LSL_LIBRARY_INFO_STR\<close> too. Including the
  header twice is the same as including it once.
\<close>

theorem inclusion_idempotent:
  "(''LSL_LIBRARY_INFO_STR'' \<in> dom env \<longrightarrow> lsl_lib_version_h env = Inr env) \<and>
   then_do (lsl_lib_version_h env) lsl_lib_version_h = lsl_lib_version_h env"
proof (intro conjI impI)
  assume "''LSL_LIBRARY_INFO_STR'' \<in> dom env"
  then show "lsl_lib_version_h env = Inr env" by (rule header_skipped)
next
  show "then_do (lsl_lib_version_h env) lsl_lib_version_h = lsl_lib_version_h env"
  proof (cases "lsl_lib_version_h env")
    case (Inl e)
    then show ?thesis by simp
  next
    case (Inr env')
    then have "lsl_lib_version_h env' = Inr env'"
      by (intro header_skipped header_defines_guard)
    with Inr show ?thesis by simp
  qed
qed

theorem inclusion_idempotent_witness:
  "lsl_lib_version_h [''LSL_LIBRARY_INFO_STR'' \<mapsto> ObjLike [adj (StrLit ''custom'')]] =
     Inr [''LSL_LIBRARY_INFO_STR'' \<mapsto> ObjLike [adj (StrLit ''custom'')]] \<and>
   then_do (lsl_lib_version_h Map.empty) lsl_lib_version_h = lsl_lib_version_h Map.empty"
  using inclusion_idempotent [of "[''LSL_LIBRARY_INFO_STR'' \<mapsto> ObjLike [adj (StrLit ''custom'')]]"]
    inclusion_idempotent [of Map.empty]
  by simp

end
